theory Spec2Isabelle
  imports Main "HOL-Library.Sublist"
begin

section \<open>JavaScript strings\<close>

text \<open>
  The program is TypeScript. A JavaScript string is a sequence of UTF-16 code units; the
  model uses \<^typ>\<open>string\<close>, whose characters are the code units U+0000 to U+00FF. The
  pictographs and check marks that open some log messages lie outside this range; they
  are left out of the message texts together with the blank that follows them. No
  decision of the program reads them.
\<close>

definition nl :: string where
  "nl = [CHR 0x0A]"

definition dquote :: string where
  "dquote = [CHR 0x22]"

definition squote :: string where
  "squote = [CHR 0x27]"

text \<open>\<open>String.prototype.indexOf\<close> with a string argument: the position of the leftmost
  occurrence, \<open>None\<close> where JavaScript answers \<open>-1\<close>.\<close>

fun find_sub :: "string \<Rightarrow> string \<Rightarrow> nat option" where
  "find_sub [] pat = (if pat = [] then Some 0 else None)"
| "find_sub (c # s) pat =
     (if prefix pat (c # s) then Some 0 else map_option Suc (find_sub s pat))"

definition indexOf :: "string \<Rightarrow> string \<Rightarrow> int" where
  "indexOf s pat = (case find_sub s pat of None \<Rightarrow> - 1 | Some i \<Rightarrow> int i)"

definition lastIndexOf :: "string \<Rightarrow> string \<Rightarrow> int" where
  "lastIndexOf s pat =
     (case find_sub (rev s) (rev pat) of
        None \<Rightarrow> - 1
      | Some i \<Rightarrow> int (length s) - int i - int (length pat))"

definition str_includes :: "string \<Rightarrow> string \<Rightarrow> bool" where
  "str_includes s pat = (find_sub s pat \<noteq> None)"

definition endsWith :: "string \<Rightarrow> string \<Rightarrow> bool" where
  "endsWith s pat = prefix (rev pat) (rev s)"

text \<open>\<open>s.split('\n')\<close>: the lines of \<open>s\<close>. The result is never the empty list, so the
  first branch of the \<open>case\<close> is never taken.\<close>

fun split_on :: "char \<Rightarrow> string \<Rightarrow> string list" where
  "split_on d [] = [[]]"
| "split_on d (c # s) =
     (if c = d then [] # split_on d s
      else (case split_on d s of [] \<Rightarrow> [[c]] | l # ls \<Rightarrow> (c # l) # ls))"

fun join :: "string \<Rightarrow> string list \<Rightarrow> string" where
  "join sep [] = []"
| "join sep [x] = x"
| "join sep (x # y # r) = x @ sep @ join sep (y # r)"

text \<open>The white space of \<open>\s\<close> and of \<open>trim\<close>, and the word characters of \<open>\w\<close>, among the
  code units below 256.\<close>

definition is_space :: "char \<Rightarrow> bool" where
  "is_space c =
     (c \<in> set [CHR 0x09, CHR 0x0A, CHR 0x0B, CHR 0x0C, CHR 0x0D, CHR 0x20, CHR 0xA0])"

definition is_word :: "char \<Rightarrow> bool" where
  "is_word c =
     (let n = (of_char c :: nat) in
        (48 \<le> n \<and> n \<le> 57) \<or> (65 \<le> n \<and> n \<le> 90) \<or> (97 \<le> n \<and> n \<le> 122) \<or> n = 95)"

definition trim :: "string \<Rightarrow> string" where
  "trim s = rev (dropWhile is_space (rev (dropWhile is_space s)))"

text \<open>\<open>toLowerCase\<close>: the letters A to Z and the capital letters of Latin-1 (U+00C0 to
  U+00DE without the multiplication sign U+00D7) move up by 32, which sets bit 5.\<close>

definition is_upper :: "char \<Rightarrow> bool" where
  "is_upper c =
     (let n = (of_char c :: nat) in
        (65 \<le> n \<and> n \<le> 90) \<or> (192 \<le> n \<and> n \<le> 222 \<and> n \<noteq> 215))"

fun set_bit5 :: "char \<Rightarrow> char" where
  "set_bit5 (Char b0 b1 b2 b3 b4 b5 b6 b7) = Char b0 b1 b2 b3 b4 True b6 b7"

definition toLowerCase :: "string \<Rightarrow> string" where
  "toLowerCase s = map (\<lambda>c. if is_upper c then set_bit5 c else c) s"

text \<open>Numbers in template literals: the decimal digits of an integer.\<close>

definition digit_char :: "nat \<Rightarrow> char" where
  "digit_char d = ''0123456789'' ! (d mod 10)"

function show_nat :: "nat \<Rightarrow> string" where
  "show_nat n = (if n < 10 then [digit_char n] else show_nat (n div 10) @ [digit_char n])"
  by pat_completeness auto
termination
  by (relation "measure id") auto

declare show_nat.simps [simp del]

definition show_int :: "int \<Rightarrow> string" where
  "show_int i = (if i < 0 then ''-'' @ show_nat (nat (- i)) else show_nat (nat i))"

text \<open>
  \<open>content.replace(before, after)\<close> with a string pattern replaces the leftmost occurrence
  only. The replacement text is not \<open>after\<close> itself but its expansion (ECMAScript's
  GetSubstitution): \<open>$$\<close> stands for a dollar sign, \<open>$&\<close> for the matched text, \<open>$`\<close> for
  the text before the match and \<open>$'\<close> for the text after it; a string pattern has no
  capture groups, so every other use of the dollar sign stands for itself.
\<close>

fun getSubstitution :: "string \<Rightarrow> string \<Rightarrow> string \<Rightarrow> string \<Rightarrow> string" where
  "getSubstitution matched pre post [] = []"
| "getSubstitution matched pre post [c] = [c]"
| "getSubstitution matched pre post (c # d # r) =
     (if c = CHR ''$'' \<and> d = CHR ''$'' then CHR ''$'' # getSubstitution matched pre post r
      else if c = CHR ''$'' \<and> d = CHR ''&'' then matched @ getSubstitution matched pre post r
      else if c = CHR ''$'' \<and> d = CHR 0x60 then pre @ getSubstitution matched pre post r
      else if c = CHR ''$'' \<and> d = CHR 0x27 then post @ getSubstitution matched pre post r
      else c # getSubstitution matched pre post (d # r))"

definition replace :: "string \<Rightarrow> string \<Rightarrow> string \<Rightarrow> string" where
  "replace s pat rep =
     (case find_sub s pat of
        None \<Rightarrow> s
      | Some i \<Rightarrow>
          take i s
          @ getSubstitution pat (take i s) (drop (i + length pat) s) rep
          @ drop (i + length pat) s)"

section \<open>The data model (types.ts)\<close>

datatype AgentPhase = IDLE | PLANNING | DESIGNING | ARCHITECTING | CODING | PATCHING | READY

record plan_t =
  features :: "string list"
  dataModels :: "string list"
  technicalRequirements :: "string list"

record design_system_t =
  colorPalette :: "(string \<times> string) list"
  typography_heading :: string
  typography_body :: string
  typography_code :: string
  spacing :: "(string \<times> string) list"
  theme :: string

datatype entry_type = File | Directory

text \<open>An entry of \<open>file_system\<close>; \<open>None\<close> is JavaScript's \<open>undefined\<close>.\<close>

record file_entry =
  path :: string
  content :: "string option"
  ftype :: entry_type
  lastModified :: "string option"

record terminal_log =
  tl_stdout :: "string list"
  tl_stderr :: "string list"
  tl_exit_code :: int
  tl_timestamp :: string

text \<open>\<open>ProjectState\<close>. The fields \<open>id\<close>, \<open>name\<close>, \<open>description\<close>, \<open>files\<close>, \<open>dependencies\<close>
  and \<open>logs\<close> are set when the state is created and never read or written again; they
  are left out.\<close>

record ProjectState =
  status :: AgentPhase
  user_prompt :: string
  plan :: "plan_t option"
  design_system :: "design_system_t option"
  file_system :: "file_entry list"
  terminal_logs :: "terminal_log list"
  iteration_count :: int
  max_iterations :: int
  generatedCode :: bool

datatype error_kind = Syntax | Type | Import | Runtime

record build_error =
  err_file :: string
  err_line :: nat
  err_column :: int
  err_message :: string
  err_type :: error_kind

record CompilationResult =
  cr_success :: bool
  cr_stdout :: string
  cr_stderr :: string
  cr_exit_code :: int
  cr_errors :: "build_error list option"

section \<open>The validator (services/compilationService.ts)\<close>

definition lazyPatterns :: "string list" where
  "lazyPatterns =
     [''// ... rest of code'', ''// TODO:'', ''// Implement later'', ''// Add more'',
      ''Lorem ipsum'', ''Sample Product 1'']"

definition lazy_message :: "string \<Rightarrow> string" where
  "lazy_message pattern =
     ''Forbidden placeholder detected: '' @ dquote @ pattern @ dquote
     @ ''. All code must be complete and functional.''"

definition count_char :: "char \<Rightarrow> string \<Rightarrow> nat" where
  "count_char c line = length (filter (\<lambda>x. x = c) line)"

text \<open>The regular expression \<open>/^\w+:\s*\w+\s*$/\<close>. Word characters, the colon and white
  space exclude one another, so each greedy star has one way to match.\<close>

definition matches_field :: "string \<Rightarrow> bool" where
  "matches_field s =
     (let name = takeWhile is_word s; r1 = dropWhile is_word s in
        name \<noteq> [] \<and>
        (case r1 of
           [] \<Rightarrow> False
         | c # r2 \<Rightarrow>
             c = CHR '':'' \<and>
             (let r3 = dropWhile is_space r2; ty = takeWhile is_word r3;
                  r4 = dropWhile is_word r3
              in ty \<noteq> [] \<and> list_all is_space r4)))"

text \<open>The body of \<open>lines.forEach\<close> in \<open>analyzeFile\<close>: the diagnostics of one line, in the
  order in which they are pushed.\<close>

definition analyzeLine :: "string \<Rightarrow> nat \<Rightarrow> string \<Rightarrow> build_error list" where
  "analyzeLine filePath lineNumber line =
     (if str_includes line ''import'' \<and> str_includes line ''from'' then
        (if str_includes line ''recharts'' \<and> str_includes line ''LineChart'' then
           [\<lparr>err_file = filePath, err_line = lineNumber,
             err_column = indexOf line ''LineChart'',
             err_message = ''Module '' @ dquote @ ''recharts'' @ dquote
               @ '' has no exported member '' @ squote @ ''LineChart'' @ squote
               @ ''. Did you mean '' @ squote @ ''Line'' @ squote @ ''?'',
             err_type = Import\<rparr>]
         else [])
        @ (if str_includes line ''// Import'' \<or> str_includes line ''TODO'' then
             [\<lparr>err_file = filePath, err_line = lineNumber, err_column = 0,
               err_message = ''Placeholder import detected. Code must be complete.'',
               err_type = Syntax\<rparr>]
           else [])
      else [])
     @ concat (map (\<lambda>pattern.
         if str_includes line pattern then
           [\<lparr>err_file = filePath, err_line = lineNumber,
             err_column = indexOf line pattern,
             err_message = lazy_message pattern, err_type = Syntax\<rparr>]
         else []) lazyPatterns)
     @ (let openBraces = count_char (CHR ''{'') line;
            closeBraces = count_char (CHR ''}'') line
        in if openBraces \<noteq> closeBraces \<and> closeBraces > openBraces then
             [\<lparr>err_file = filePath, err_line = lineNumber,
               err_column = lastIndexOf line ''}'',
               err_message = ''Unexpected token '' @ squote @ ''}'' @ squote,
               err_type = Syntax\<rparr>]
           else [])
     @ (if matches_field (trim line) \<and> \<not> str_includes line '';''
           \<and> \<not> str_includes line ''{'' then
          [\<lparr>err_file = filePath, err_line = lineNumber,
            err_column = int (length line),
            err_message = ''Missing semicolon in interface definition'',
            err_type = Syntax\<rparr>]
        else [])"

definition analyzeFile :: "string \<Rightarrow> string \<Rightarrow> build_error list" where
  "analyzeFile filePath content' =
     concat (map (\<lambda>(lineNumber, line). analyzeLine filePath lineNumber line)
                 (enumerate 1 (split_on (CHR 0x0A) content')))"

text \<open>The path test \<open>/\.(tsx?|jsx?)$/\<close>.\<close>

definition is_code_path :: "string \<Rightarrow> bool" where
  "is_code_path p =
     (endsWith p ''.ts'' \<or> endsWith p ''.tsx'' \<or> endsWith p ''.js'' \<or> endsWith p ''.jsx'')"

text \<open>\<open>staticAnalysis\<close>: an entry is skipped when it is no file, when its content is
  \<open>undefined\<close> or empty (\<open>!file.content\<close>), or when its path is no code path.\<close>

definition analyzed :: "file_entry \<Rightarrow> build_error list" where
  "analyzed f =
     (case content f of
        None \<Rightarrow> []
      | Some c \<Rightarrow>
          if ftype f \<noteq> File \<or> c = [] then []
          else if \<not> is_code_path (path f) then []
          else analyzeFile (path f) c)"

definition staticAnalysis :: "ProjectState \<Rightarrow> build_error list" where
  "staticAnalysis projectState = concat (map analyzed (file_system projectState))"

definition kind_upper :: "error_kind \<Rightarrow> string" where
  "kind_upper k =
     (case k of Syntax \<Rightarrow> ''SYNTAX'' | Type \<Rightarrow> ''TYPE'' | Import \<Rightarrow> ''IMPORT''
      | Runtime \<Rightarrow> ''RUNTIME'')"

text \<open>\<open>formatError\<close>. \<open>' '.repeat(column)\<close> needs a column that is not negative; every
  column \<open>analyzeLine\<close> computes follows a successful \<open>includes\<close> test or is a length.\<close>

definition formatError :: "build_error \<Rightarrow> string" where
  "formatError e =
     nl @ ''ERROR in '' @ err_file e @ '':'' @ show_nat (err_line e) @ '':''
        @ show_int (err_column e) @ nl
     @ kind_upper (err_type e) @ '' ERROR: '' @ err_message e @ nl
     @ nl
     @ ''  '' @ show_nat (err_line e) @ '' | <source line would go here>'' @ nl
     @ ''    '' @ replicate (nat (err_column e)) (CHR '' '') @ ''^'' @ nl"

text \<open>\<open>validateCode\<close>. Its \<open>catch\<close> branch (exit code 2) answers an exception of
  \<open>staticAnalysis\<close>; on a file system of the declared type \<open>staticAnalysis\<close> raises none,
  so the branch has no counterpart here.\<close>

definition validateCode :: "ProjectState \<Rightarrow> CompilationResult" where
  "validateCode projectState =
     (let validationErrors = staticAnalysis projectState in
        if length validationErrors > 0 then
          \<lparr>cr_success = False,
           cr_stdout = ''Build started...'' @ nl @ ''Analyzing files...'',
           cr_stderr = join nl (map formatError validationErrors),
           cr_exit_code = 1,
           cr_errors = Some validationErrors\<rparr>
        else
          \<lparr>cr_success = True,
           cr_stdout = join nl
             [''Build started...'', ''Analyzing dependencies...'',
              ''TypeScript compilation successful'', ''All components validated'',
              ''Build completed in 3.2s'', ''Dev server ready at http://localhost:3000''],
           cr_stderr = [],
           cr_exit_code = 0,
           cr_errors = None\<rparr>)"

definition fatalPatterns :: "string list" where
  "fatalPatterns =
     [''ENOSPC'', ''ENOMEM'', ''permission denied'',
      ''cannot find module '' @ squote @ ''@/'']"

definition isRecoverableError :: "CompilationResult \<Rightarrow> bool" where
  "isRecoverableError result =
     (if cr_success result then False
      else \<not> list_ex (\<lambda>pattern.
             str_includes (toLowerCase (cr_stderr result)) (toLowerCase pattern))
           fatalPatterns)"

section \<open>The completion client (GeminiService)\<close>

text \<open>A value raised by \<open>throw\<close>: an \<open>Error\<close> with its message, or a value that is no
  \<open>Error\<close>.\<close>

datatype thrown = Error string | NonError

record RetryConfig =
  maxRetries :: nat
  initialDelay :: nat
  maxDelay :: nat

definition retryConfig :: RetryConfig where
  "retryConfig = \<lparr>maxRetries = 3, initialDelay = 1000, maxDelay = 10000\<rparr>"

text \<open>What a call of \<open>retryWithBackoff\<close> does: what it returns or raises, the delays it
  passed to \<open>setTimeout\<close> in order, and how often it invoked \<open>fn\<close>.\<close>

record 'a retry_result =
  rr_outcome :: "thrown + 'a"
  rr_waits :: "nat list"
  rr_calls :: nat

text \<open>
  The \<open>for\<close> loop of \<open>retryWithBackoff\<close>, entered with the loop variable \<open>attempt\<close>, the
  current \<open>delay\<close>, the delays waited so far and \<open>lastError\<close>. The argument \<open>fn\<close> gives
  the outcome of each invocation of the retried function, numbered from 0: a raised value
  or a result. The last branch is the \<open>throw\<close> behind the loop.
\<close>

function retry_from ::
  "RetryConfig \<Rightarrow> (nat \<Rightarrow> thrown + 'a) \<Rightarrow> nat \<Rightarrow> nat \<Rightarrow> nat list \<Rightarrow> string option
     \<Rightarrow> 'a retry_result" where
  "retry_from cfg fn attempt delay waits lastError =
     (if attempt \<le> maxRetries cfg then
        (case fn attempt of
           Inr v \<Rightarrow> \<lparr>rr_outcome = Inr v, rr_waits = waits, rr_calls = attempt + 1\<rparr>
         | Inl err \<Rightarrow>
             (let lastError' = (case err of Error m \<Rightarrow> m | NonError \<Rightarrow> ''Unknown error'') in
                if str_includes lastError' ''API key'' \<or> str_includes lastError' ''401'' then
                  \<lparr>rr_outcome = Inl (Error lastError'), rr_waits = waits,
                   rr_calls = attempt + 1\<rparr>
                else if attempt = maxRetries cfg then
                  \<lparr>rr_outcome = Inl (Error lastError'), rr_waits = waits,
                   rr_calls = attempt + 1\<rparr>
                else
                  retry_from cfg fn (attempt + 1) (min (delay * 2) (maxDelay cfg))
                    (waits @ [delay]) (Some lastError')))
      else
        \<lparr>rr_outcome =
           Inl (Error (case lastError of Some m \<Rightarrow> m | None \<Rightarrow> ''Retry failed'')),
         rr_waits = waits, rr_calls = attempt\<rparr>)"
  by pat_completeness auto
termination
  by (relation "measure (\<lambda>(cfg, fn, attempt, delay, waits, lastError).
        Suc (maxRetries cfg) - attempt)") auto

declare retry_from.simps [simp del]

definition retryWithBackoff :: "RetryConfig \<Rightarrow> (nat \<Rightarrow> thrown + 'a) \<Rightarrow> 'a retry_result" where
  "retryWithBackoff cfg fn = retry_from cfg fn 0 (initialDelay cfg) [] None"

text \<open>
  What one HTTP request to the service comes to. \<open>FetchThrows\<close>: \<open>fetch\<close> raises, or the
  response is \<open>ok\<close> and \<open>response.json()\<close> or the reading of its candidates raises.
  \<open>HttpFailure\<close>: the response is not \<open>ok\<close>, with its status and the two messages of its
  JSON body (\<open>error.error?.message\<close> and \<open>error.message\<close>). \<open>HttpFailureUnread\<close>: the response
  is not \<open>ok\<close>, with its status, and \<open>response.json()\<close> or the reading of the messages raises
  (the body is no JSON, or it is the JSON \<open>null\<close>); the source calls \<open>response.json()\<close> before
  it looks at the status. \<open>HttpOk\<close>: the response is \<open>ok\<close>, with the text of its first candidate
  (empty when that is missing).
\<close>

datatype fetch_outcome =
    FetchThrows thrown
  | HttpFailure nat "string option" "string option"
  | HttpFailureUnread nat thrown
  | HttpOk string

text \<open>\<open>a || b\<close> on optional strings: \<open>undefined\<close> and the empty string are falsy.\<close>

definition or_else :: "string option \<Rightarrow> string \<Rightarrow> string" where
  "or_else a b = (case a of None \<Rightarrow> b | Some x \<Rightarrow> if x = [] then b else x)"

definition formatErrorMessage :: "string option \<Rightarrow> string option \<Rightarrow> nat \<Rightarrow> string" where
  "formatErrorMessage error_error_message error_message http_status =
     (let message = or_else error_error_message (or_else error_message ''Unknown error'') in
        if http_status = 400 then ''Invalid request: '' @ message
        else if http_status = 401 then
          ''Invalid API key. Please check your VITE_GEMINI_API_KEY in .env file.''
        else if http_status = 403 then
          ''API access forbidden. Please check your API key permissions.''
        else if http_status = 429 then ''Rate limit exceeded. Please try again in a moment.''
        else if http_status = 500 \<or> http_status = 503 then
          ''Gemini API is temporarily unavailable. Please try again later.''
        else ''Gemini API error ('' @ show_nat http_status @ ''): '' @ message)"

text \<open>The function \<open>sendPrompt\<close> hands to \<open>retryWithBackoff\<close>: one request. The result is
  the text of the response; its \<open>phase\<close> marker is read nowhere and is left out.\<close>

definition request_result :: "fetch_outcome \<Rightarrow> thrown + string" where
  "request_result r =
     (case r of
        FetchThrows (Error m) \<Rightarrow> Inl (Error m)
      | FetchThrows NonError \<Rightarrow>
          Inl (Error ''Unknown error occurred while communicating with Gemini API'')
      | HttpFailure http_status em m \<Rightarrow> Inl (Error (formatErrorMessage em m http_status))
      | HttpFailureUnread http_status (Error m) \<Rightarrow> Inl (Error m)
      | HttpFailureUnread http_status NonError \<Rightarrow>
          Inl (Error ''Unknown error occurred while communicating with Gemini API'')
      | HttpOk text' \<Rightarrow>
          if text' = [] then Inl (Error ''Empty response from Gemini API'') else Inr text')"

datatype role = User | Model

type_synonym GeminiMessage = "role \<times> string"

text \<open>\<open>isAvailable\<close>, and \<open>sendPrompt\<close>. The argument \<open>service\<close> is the remote service: the
  outcome of the request with a given number (counted from 0 within this call) and body.\<close>

definition isAvailable :: "string option \<Rightarrow> bool" where
  "isAvailable apiKey = (case apiKey of None \<Rightarrow> False | Some k \<Rightarrow> length k > 0)"

definition sendPrompt ::
  "string option \<Rightarrow> (nat \<Rightarrow> GeminiMessage list \<Rightarrow> fetch_outcome) \<Rightarrow> string \<Rightarrow> string
     \<Rightarrow> GeminiMessage list \<Rightarrow> string retry_result" where
  "sendPrompt apiKey service systemPrompt userPrompt conversationHistory' =
     (if \<not> isAvailable apiKey then
        \<lparr>rr_outcome = Inl (Error
           ''Gemini API key not configured. Please add VITE_GEMINI_API_KEY to your .env file.''),
         rr_waits = [], rr_calls = 0\<rparr>
      else
        (let messages = [(User, systemPrompt)] @ conversationHistory' @ [(User, userPrompt)]
         in retryWithBackoff retryConfig (\<lambda>k. request_result (service k messages))))"

section \<open>The response parser (services/agentPrompts.ts)\<close>

record generated_file =
  gf_path :: string
  gf_content :: "string option"

record code_fix =
  fix_file :: string
  fix_line :: int
  fix_before :: string
  fix_after :: string

text \<open>
  \<open>JSON.parse\<close> belongs to the runtime and is a parameter of the model. Its result has the
  TypeScript type \<open>any\<close>; the model gives it the fields the orchestrator reads, each with
  the type that types.ts and the prompts declare for it. \<open>None\<close> is a missing field,
  \<open>request_human_help\<close> is the truth value of that field.
\<close>

record payload =
  thought :: "string option"
  p_plan :: "plan_t option"
  p_design_system :: "design_system_t option"
  p_file_system :: "file_entry list option"
  p_files :: "generated_file list option"
  p_fixes :: "code_fix list option"
  request_human_help :: bool
  p_output :: "string option"
  p_raw :: bool

text \<open>
  The match of \<open>/```json\s*([\s\S]*?)\s*```/\<close>: its first group. The match starts at the
  leftmost \<open>```json\<close>; white space holds no backquote, so the greedy \<open>\s*\<close> takes all the
  white space that follows, and the lazy group ends where only white space stands before
  the next \<open>```\<close>.
\<close>

definition fenced_json :: "string \<Rightarrow> string option" where
  "fenced_json rawResponse =
     (case find_sub rawResponse ''```json'' of
        None \<Rightarrow> None
      | Some i \<Rightarrow>
          (let rest = dropWhile is_space (drop (i + 7) rawResponse) in
             case find_sub rest ''```'' of
               None \<Rightarrow> None
             | Some j \<Rightarrow> Some (rev (dropWhile is_space (rev (take j rest))))))"

definition fallback_payload :: "string \<Rightarrow> payload" where
  "fallback_payload rawResponse =
     \<lparr>thought = Some ''Extracted from unstructured response'', p_plan = None,
      p_design_system = None, p_file_system = None, p_files = None, p_fixes = None,
      request_human_help = False, p_output = Some rawResponse, p_raw = True\<rparr>"

text \<open>\<open>parseAgentResponse\<close>, with each \<open>try\<close> and \<open>catch\<close> written out: \<open>Inl\<close> is a value that
  leaves the function by \<open>throw\<close>.\<close>

definition parseAgentResponse ::
  "(string \<Rightarrow> thrown + payload) \<Rightarrow> string \<Rightarrow> AgentPhase \<Rightarrow> thrown + payload" where
  "parseAgentResponse JSON_parse rawResponse phase =
     (let entire =
        (case JSON_parse rawResponse of
           Inr v \<Rightarrow> Inr v
         | Inl e \<Rightarrow> Inr (fallback_payload rawResponse))
      in case fenced_json rawResponse of
           Some body \<Rightarrow> (case JSON_parse body of Inr v \<Rightarrow> Inr v | Inl e \<Rightarrow> entire)
         | None \<Rightarrow> entire)"

section \<open>The orchestrator (AgentOrchestrator)\<close>

subsection \<open>Callbacks, configuration and surroundings\<close>

datatype log_type = L_info | L_success | L_error | L_system

text \<open>A \<open>LogEntry\<close> without its \<open>id\<close> (random) and its \<open>timestamp\<close> (the time of day).\<close>

record LogEntry =
  agent :: string
  message :: string
  ltype :: log_type
  codeBlock :: "string option"

definition createLog :: "string \<Rightarrow> string \<Rightarrow> log_type \<Rightarrow> LogEntry" where
  "createLog a m t = \<lparr>agent = a, message = m, ltype = t, codeBlock = None\<rparr>"

definition createLog_code :: "string \<Rightarrow> string \<Rightarrow> log_type \<Rightarrow> string \<Rightarrow> LogEntry" where
  "createLog_code a m t c = \<lparr>agent = a, message = m, ltype = t, codeBlock = Some c\<rparr>"

text \<open>A call of one of the callbacks of \<open>AgentWorkflowConfig\<close>, with its argument.
  \<open>OnStateUpdate\<close> carries the project state as it is at the call.\<close>

datatype event =
    OnLog LogEntry
  | OnPhaseChange AgentPhase
  | OnStateUpdate ProjectState
  | OnComplete
  | OnError thrown

datatype AgentMode = Simulation | AI | Hybrid

text \<open>
  The configuration: the mode, whether the optional \<open>onStateUpdate\<close> is given, and what the
  consumer's \<open>onComplete\<close> does when it is called: it returns (\<open>None\<close>) or it raises a value.
  The callbacks themselves are the consumer's; the model records each call as an event.
  \<open>onComplete\<close> is the callback that \<open>start\<close> calls inside its \<open>try\<close> block with nothing behind
  it, so that what it raises decides which callbacks a run calls; \<open>onLog\<close>, \<open>onPhaseChange\<close>,
  \<open>onStateUpdate\<close> and \<open>onError\<close> are taken to return normally.
\<close>

record AgentWorkflowConfig =
  mode :: AgentMode
  has_onStateUpdate :: bool
  onComplete_raises :: "thrown option"

record sim_step =
  step_phase :: AgentPhase
  step_delay :: nat
  step_log :: LogEntry

text \<open>
  What the orchestrator does not decide: the API key, the remote service (the outcome
  of the request with a given number, counted over the whole life of the orchestrator,
  and body), \<open>JSON.parse\<close>, the prompt texts (\<open>buildAgentPrompt\<close> and \<open>SYSTEM_PROMPT\<close>, which only
  travel to the service and into the conversation history), the table \<open>SIMULATION_STEPS\<close>
  and the clock (the text \<open>new Date().toISOString()\<close> gives at its call with a given
  number).
\<close>

record env =
  apiKey :: "string option"
  service :: "nat \<Rightarrow> GeminiMessage list \<Rightarrow> fetch_outcome"
  JSON_parse :: "string \<Rightarrow> thrown + payload"
  buildAgentPrompt :: "AgentPhase \<Rightarrow> string \<Rightarrow> ProjectState \<Rightarrow> string"
  SYSTEM_PROMPT :: string
  SIMULATION_STEPS :: "sim_step list"
  clock :: "nat \<Rightarrow> string"

text \<open>
  The private fields of \<open>AgentOrchestrator\<close>, followed by the record of what it has done
  to its surroundings, which is no field of the class: the callback calls in order
  (\<open>events\<close>), the number of HTTP requests sent (\<open>requests\<close>), the delays waited with
  \<open>setTimeout\<close> (\<open>timeouts\<close>), the number of readings of the clock (\<open>dates\<close>), and every
  value \<open>iteration_count\<close> has held, oldest first (\<open>iteration_history\<close>).
\<close>

record orchestrator =
  config :: AgentWorkflowConfig
  conversationHistory :: "GeminiMessage list"
  currentPhase :: AgentPhase
  isRunning :: bool
  projectState :: ProjectState
  events :: "event list"
  requests :: nat
  timeouts :: "nat list"
  dates :: nat
  iteration_history :: "int list"

text \<open>An asynchronous method, run from a state: \<open>Inl\<close> is the value it raises (the
  rejection of its promise), \<open>Inr\<close> the value it returns.\<close>

type_synonym 'a outcome = "(thrown + 'a) \<times> orchestrator"

definition createInitialState :: ProjectState where
  "createInitialState =
     \<lparr>status = IDLE, user_prompt = [], plan = None, design_system = None,
      file_system = [], terminal_logs = [], iteration_count = 0, max_iterations = 3,
      generatedCode = False\<rparr>"

text \<open>The constructor.\<close>

definition new_orchestrator :: "AgentWorkflowConfig \<Rightarrow> orchestrator" where
  "new_orchestrator cfg =
     \<lparr>config = cfg, conversationHistory = [], currentPhase = PLANNING, isRunning = False,
      projectState = createInitialState, events = [], requests = 0, timeouts = [],
      dates = 0, iteration_history = [0]\<rparr>"

definition emit :: "event \<Rightarrow> orchestrator \<Rightarrow> orchestrator" where
  "emit e st = st\<lparr>events := events st @ [e]\<rparr>"

definition onLog :: "LogEntry \<Rightarrow> orchestrator \<Rightarrow> orchestrator" where
  "onLog l st = emit (OnLog l) st"

definition onPhaseChange :: "AgentPhase \<Rightarrow> orchestrator \<Rightarrow> orchestrator" where
  "onPhaseChange p st = emit (OnPhaseChange p) st"

definition notifyStateUpdate :: "orchestrator \<Rightarrow> orchestrator" where
  "notifyStateUpdate st =
     (if has_onStateUpdate (config st) then emit (OnStateUpdate (projectState st)) st
      else st)"

definition addToHistory :: "string \<Rightarrow> string \<Rightarrow> orchestrator \<Rightarrow> orchestrator" where
  "addToHistory userPrompt modelResponse st =
     st\<lparr>conversationHistory :=
          conversationHistory st @ [(User, userPrompt), (Model, modelResponse)]\<rparr>"

text \<open>\<open>new Date().toISOString()\<close>.\<close>

definition new_date :: "env \<Rightarrow> orchestrator \<Rightarrow> string \<times> orchestrator" where
  "new_date e st = (clock e (dates st), st\<lparr>dates := dates st + 1\<rparr>)"

text \<open>A write to \<open>projectState.iteration_count\<close>.\<close>

definition set_iteration_count :: "int \<Rightarrow> orchestrator \<Rightarrow> orchestrator" where
  "set_iteration_count v st =
     st\<lparr>projectState := (projectState st)\<lparr>iteration_count := v\<rparr>,
        iteration_history := iteration_history st @ [v]\<rparr>"

text \<open>The first three statements of every phase: \<open>currentPhase\<close>, \<open>status\<close>,
  \<open>onPhaseChange\<close>.\<close>

definition enter_phase :: "AgentPhase \<Rightarrow> orchestrator \<Rightarrow> orchestrator" where
  "enter_phase p st =
     onPhaseChange p
       (st\<lparr>currentPhase := p, projectState := (projectState st)\<lparr>status := p\<rparr>\<rparr>)"

text \<open>\<open>await geminiService.sendPrompt(...)\<close> from a state: the requests of the call take
  the next numbers.\<close>

definition geminiService_sendPrompt ::
  "env \<Rightarrow> string \<Rightarrow> string \<Rightarrow> orchestrator \<Rightarrow> string outcome" where
  "geminiService_sendPrompt e systemPrompt userPrompt st =
     (let r = sendPrompt (apiKey e) (\<lambda>k. service e (requests st + k)) systemPrompt userPrompt
                (conversationHistory st)
      in (rr_outcome r,
          st\<lparr>requests := requests st + rr_calls r, timeouts := timeouts st @ rr_waits r\<rparr>))"

text \<open>The three statements every phase shares: build the prompt, send it, parse the
  response. The result is the prompt, the response text and the parsed payload.\<close>

definition consult :: "env \<Rightarrow> AgentPhase \<Rightarrow> orchestrator \<Rightarrow> (string \<times> string \<times> payload) outcome" where
  "consult e phase st =
     (let prompt = buildAgentPrompt e phase (user_prompt (projectState st)) (projectState st)
      in case geminiService_sendPrompt e (SYSTEM_PROMPT e) prompt st of
           (Inl err, st1) \<Rightarrow> (Inl err, st1)
         | (Inr response_text, st1) \<Rightarrow>
             (case parseAgentResponse (JSON_parse e) response_text phase of
                Inl err \<Rightarrow> (Inl err, st1)
              | Inr parsed \<Rightarrow> (Inr (prompt, response_text, parsed), st1)))"

text \<open>\<open>if (parsed.thought) onLog(...)\<close>: the empty string is falsy.\<close>

definition log_thought :: "string \<Rightarrow> payload \<Rightarrow> orchestrator \<Rightarrow> orchestrator" where
  "log_thought a parsed st =
     (case thought parsed of
        None \<Rightarrow> st
      | Some t \<Rightarrow> if t = [] then st else onLog (createLog a t L_info) st)"

subsection \<open>The four generating phases\<close>

definition executePlanningPhase :: "env \<Rightarrow> orchestrator \<Rightarrow> unit outcome" where
  "executePlanningPhase e st =
     (if \<not> isRunning st then (Inr (), st)
      else
        (let st1 = enter_phase PLANNING st;
             st2 = onLog (createLog ''PLANNER'' ''Starting Planning Phase...'' L_info) st1;
             st3 = onLog (createLog ''PLANNER''
                     ''Analyzing user intent and defining requirements...'' L_info) st2
         in case consult e PLANNING st3 of
              (Inl err, st4) \<Rightarrow> (Inl err, st4)
            | (Inr (prompt, response_text, parsed), st4) \<Rightarrow>
                (let st5 = log_thought ''PLANNER'' parsed st4;
                     st6 =
                       (case p_plan parsed of
                          None \<Rightarrow> st5
                        | Some pl \<Rightarrow>
                            onLog (createLog ''PLANNER''
                              ''Generated mock data schema (Mock Data Mandate enforced)''
                              L_success)
                            (onLog (createLog ''PLANNER''
                               (''Created '' @ show_nat (length (dataModels pl))
                                @ '' data models'') L_success)
                            (onLog (createLog ''PLANNER''
                               (''Defined '' @ show_nat (length (features pl))
                                @ '' core features'') L_success)
                            (st5\<lparr>projectState := (projectState st5)\<lparr>plan := Some pl\<rparr>\<rparr>))))
                 in (Inr (), notifyStateUpdate (addToHistory prompt response_text st6)))))"

definition executeDesignPhase :: "env \<Rightarrow> orchestrator \<Rightarrow> unit outcome" where
  "executeDesignPhase e st =
     (if \<not> isRunning st then (Inr (), st)
      else
        (let st1 = enter_phase DESIGNING st;
             st2 = onLog (createLog ''DESIGNER'' ''Starting Design Phase...'' L_info) st1;
             st3 = onLog (createLog ''DESIGNER''
                     (''Performing '' @ dquote @ ''Vibe Check'' @ dquote
                      @ '' and creating design system...'') L_info) st2
         in case consult e DESIGNING st3 of
              (Inl err, st4) \<Rightarrow> (Inl err, st4)
            | (Inr (prompt, response_text, parsed), st4) \<Rightarrow>
                (let st5 = log_thought ''DESIGNER'' parsed st4;
                     st6 =
                       (case p_design_system parsed of
                          None \<Rightarrow> st5
                        | Some ds \<Rightarrow>
                            onLog (createLog ''DESIGNER''
                              (''Typography: '' @ typography_heading ds @ '' / ''
                               @ typography_body ds) L_success)
                            (onLog (createLog ''DESIGNER''
                               (''Color Palette: '' @ show_nat (length (colorPalette ds))
                                @ '' semantic tokens'') L_success)
                            (onLog (createLog ''DESIGNER'' (''Theme: '' @ theme ds) L_success)
                            (st5\<lparr>projectState :=
                                   (projectState st5)\<lparr>design_system := Some ds\<rparr>\<rparr>))))
                 in (Inr (), notifyStateUpdate (addToHistory prompt response_text st6)))))"

definition executeArchitecturePhase :: "env \<Rightarrow> orchestrator \<Rightarrow> unit outcome" where
  "executeArchitecturePhase e st =
     (if \<not> isRunning st then (Inr (), st)
      else
        (let st1 = enter_phase ARCHITECTING st;
             st2 = onLog (createLog ''ARCHITECT'' ''Starting Architecture Phase...'' L_info) st1;
             st3 = onLog (createLog ''ARCHITECT''
                     ''Scaffolding file system and project structure...'' L_info) st2
         in case consult e ARCHITECTING st3 of
              (Inl err, st4) \<Rightarrow> (Inl err, st4)
            | (Inr (prompt, response_text, parsed), st4) \<Rightarrow>
                (let st5 = log_thought ''ARCHITECT'' parsed st4;
                     st6 =
                       (case p_file_system parsed of
                          None \<Rightarrow> st5
                        | Some fs \<Rightarrow>
                            (let fileCount = length (filter (\<lambda>f. ftype f = File) fs);
                                 dirCount = length (filter (\<lambda>f. ftype f = Directory) fs);
                                 treePreview = join nl (map path (take 5 fs))
                             in onLog (createLog_code ''ARCHITECT'' ''File tree preview:''
                                         L_info treePreview)
                                (onLog (createLog ''ARCHITECT''
                                          ''Mock data file: src/lib/mockData.ts'' L_success)
                                (onLog (createLog ''ARCHITECT''
                                          ''Next.js 14 App Router structure (src/app/)''
                                          L_success)
                                (onLog (createLog ''ARCHITECT''
                                          (''Created '' @ show_nat fileCount @ '' files and ''
                                           @ show_nat dirCount @ '' directories'') L_success)
                                (st5\<lparr>projectState :=
                                       (projectState st5)\<lparr>file_system := fs\<rparr>\<rparr>))))))
                 in (Inr (), notifyStateUpdate (addToHistory prompt response_text st6)))))"

text \<open>\<open>Array.prototype.find\<close> gives the first entry that passes the test; the entry is
  then changed in place, so the model needs its position.\<close>

fun find_index :: "('a \<Rightarrow> bool) \<Rightarrow> 'a list \<Rightarrow> nat option" where
  "find_index P [] = None"
| "find_index P (x # xs) = (if P x then Some 0 else map_option Suc (find_index P xs))"

text \<open>The body of \<open>parsed.files.forEach\<close> in the coding phase.\<close>

definition merge_file :: "env \<Rightarrow> generated_file \<Rightarrow> orchestrator \<Rightarrow> orchestrator" where
  "merge_file e file st =
     (let fs = file_system (projectState st); (now, st1) = new_date e st in
        case find_index (\<lambda>f. path f = gf_path file) fs of
          Some i \<Rightarrow>
            st1\<lparr>projectState := (projectState st1)\<lparr>file_system :=
                fs[i := (fs ! i)\<lparr>content := gf_content file, lastModified := Some now\<rparr>]\<rparr>\<rparr>
        | None \<Rightarrow>
            st1\<lparr>projectState := (projectState st1)\<lparr>file_system :=
                fs @ [\<lparr>path = gf_path file, content = gf_content file, ftype = File,
                       lastModified = Some now\<rparr>]\<rparr>\<rparr>)"

definition executeCodingPhase :: "env \<Rightarrow> orchestrator \<Rightarrow> unit outcome" where
  "executeCodingPhase e st =
     (if \<not> isRunning st then (Inr (), st)
      else
        (let st1 = enter_phase CODING st;
             st2 = onLog (createLog ''CODER'' ''Starting Coding Phase...'' L_info) st1;
             st3 = onLog (createLog ''CODER''
                     ''Implementing full application (Anti-Laziness Protocol enforced)...''
                     L_info) st2
         in case consult e CODING st3 of
              (Inl err, st4) \<Rightarrow> (Inl err, st4)
            | (Inr (prompt, response_text, parsed), st4) \<Rightarrow>
                (let st5 = log_thought ''CODER'' parsed st4;
                     st6 =
                       (case p_files parsed of
                          None \<Rightarrow> st5
                        | Some files \<Rightarrow>
                            (let st' = fold (merge_file e) files st5 in
                               onLog (createLog ''CODER''
                                        ''Design tokens integrated into components'' L_success)
                               (onLog (createLog ''CODER''
                                         ''All code is copy-pasteable and ready to run''
                                         L_success)
                               (onLog (createLog ''CODER''
                                         (''Generated '' @ show_nat (length files)
                                          @ '' complete, functional files'') L_success)
                               (st'\<lparr>projectState :=
                                      (projectState st')\<lparr>generatedCode := True\<rparr>\<rparr>)))))
                 in (Inr (), notifyStateUpdate (addToHistory prompt response_text st6)))))"

subsection \<open>Patching\<close>

text \<open>The body of \<open>parsed.fixes.forEach\<close>: the fix and its index.\<close>

definition apply_fix :: "env \<Rightarrow> code_fix \<Rightarrow> nat \<Rightarrow> orchestrator \<Rightarrow> orchestrator" where
  "apply_fix e fx index st =
     (let fs = file_system (projectState st) in
        case find_index (\<lambda>f. path f = fix_file fx) fs of
          None \<Rightarrow> st
        | Some i \<Rightarrow>
            (case content (fs ! i) of
               None \<Rightarrow> st
             | Some c \<Rightarrow>
                 if c = [] then st
                 else
                   (let (now, st1) = new_date e st;
                        file' = (fs ! i)\<lparr>content := Some (replace c (fix_before fx) (fix_after fx)),
                                         lastModified := Some now\<rparr>
                    in onLog (createLog ''PATCHER''
                                (''  '' @ show_nat (index + 1) @ ''. '' @ fix_file fx @ '':''
                                 @ show_int (fix_line fx) @ '' - Applied surgical fix'')
                                L_success)
                       (st1\<lparr>projectState :=
                              (projectState st1)\<lparr>file_system := fs[i := file']\<rparr>\<rparr>))))"

fun apply_fixes :: "env \<Rightarrow> code_fix list \<Rightarrow> nat \<Rightarrow> orchestrator \<Rightarrow> orchestrator" where
  "apply_fixes e [] index st = st"
| "apply_fixes e (fx # fxs) index st = apply_fixes e fxs (index + 1) (apply_fix e fx index st)"

definition executePatchingPhase :: "env \<Rightarrow> orchestrator \<Rightarrow> unit outcome" where
  "executePatchingPhase e st =
     (if \<not> isRunning st then (Inr (), st)
      else
        (let st1 = enter_phase PATCHING st;
             st2 = onLog (createLog ''PATCHER''
                     ''Analyzing error logs (Abductive Reasoning)...'' L_info) st1
         in case consult e PATCHING st2 of
              (Inl err, st3) \<Rightarrow> (Inl err, st3)
            | (Inr (prompt, response_text, parsed), st3) \<Rightarrow>
                (let st4 = log_thought ''PATCHER'' parsed st3 in
                   if request_human_help parsed then
                     (let st5 = onLog (createLog ''PATCHER''
                                  ''Complex error detected. Human review recommended.''
                                  L_error) st4
                      in (Inr (),
                          set_iteration_count (max_iterations (projectState st5)) st5))
                   else
                     (let st5 =
                        (case p_fixes parsed of
                           None \<Rightarrow> st4
                         | Some fixes \<Rightarrow>
                             apply_fixes e fixes 0
                               (onLog (createLog ''PATCHER''
                                  (''Identified '' @ show_nat (length fixes) @ '' fixes'')
                                  L_success) st4))
                      in (Inr (), notifyStateUpdate (addToHistory prompt response_text st5))))))"

subsection \<open>Validation and the healing loop\<close>

text \<open>\<open>terminal_logs.push({...})\<close> with the result of a validation.\<close>

definition push_terminal_log :: "env \<Rightarrow> CompilationResult \<Rightarrow> orchestrator \<Rightarrow> orchestrator" where
  "push_terminal_log e result st =
     (let (now, st1) = new_date e st in
        st1\<lparr>projectState := (projectState st1)\<lparr>terminal_logs :=
            terminal_logs (projectState st1)
            @ [\<lparr>tl_stdout = split_on (CHR 0x0A) (cr_stdout result),
                tl_stderr = split_on (CHR 0x0A) (cr_stderr result),
                tl_exit_code = cr_exit_code result, tl_timestamp = now\<rparr>]\<rparr>\<rparr>)"

text \<open>One Patch attempt, the first three statements of the loop body: the increment of
  \<open>iteration_count\<close>, the log line and \<open>executePatchingPhase\<close>.\<close>

definition patch_attempt :: "env \<Rightarrow> orchestrator \<Rightarrow> unit outcome" where
  "patch_attempt e st =
     (let st1 = set_iteration_count (iteration_count (projectState st) + 1) st;
          st2 = onLog (createLog ''PATCHER''
                  (''Healing attempt '' @ show_int (iteration_count (projectState st1)) @ ''/''
                   @ show_int (max_iterations (projectState st1)) @ ''...'') L_info) st1
      in executePatchingPhase e st2)"

text \<open>The stagnation signal: the log line behind \<open>if (newResult.stderr === result.stderr)\<close>.\<close>

definition same_error_log :: "int \<Rightarrow> LogEntry" where
  "same_error_log n =
     createLog ''PATCHER'' (''Same error persists after attempt '' @ show_int n) L_error"

definition max_iterations_log :: LogEntry where
  "max_iterations_log =
     createLog ''PATCHER'' ''Max healing iterations reached. Requesting human assistance.''
       L_error"

lemma apply_fix_counts:
  "iteration_count (projectState (apply_fix e fx n st)) = iteration_count (projectState st)
   \<and> max_iterations (projectState (apply_fix e fx n st)) = max_iterations (projectState st)
   \<and> iteration_history (apply_fix e fx n st) = iteration_history st"
  by (simp add: apply_fix_def new_date_def onLog_def emit_def Let_def split: option.splits)

lemma apply_fixes_counts:
  "iteration_count (projectState (apply_fixes e fxs n st)) = iteration_count (projectState st)
   \<and> max_iterations (projectState (apply_fixes e fxs n st)) = max_iterations (projectState st)
   \<and> iteration_history (apply_fixes e fxs n st) = iteration_history st"
  by (induction fxs arbitrary: n st) (simp_all add: apply_fix_counts)

lemma consult_counts:
  "projectState (snd (consult e ph st)) = projectState st
   \<and> iteration_history (snd (consult e ph st)) = iteration_history st"
  by (simp add: consult_def geminiService_sendPrompt_def Let_def split: sum.splits prod.splits)

lemma log_thought_counts:
  "projectState (log_thought a p st) = projectState st
   \<and> iteration_history (log_thought a p st) = iteration_history st"
  by (simp add: log_thought_def onLog_def emit_def split: option.splits)

text \<open>What \<open>executePatchingPhase\<close> does to the counter: nothing, or one write of
  \<open>max_iterations\<close>.\<close>

lemma executePatchingPhase_counts:
  assumes "executePatchingPhase e st = (r, st')"
  shows "max_iterations (projectState st') = max_iterations (projectState st)"
    and "(iteration_count (projectState st') = iteration_count (projectState st)
          \<and> iteration_history st' = iteration_history st)
         \<or> (r = Inr () \<and> iteration_count (projectState st') = max_iterations (projectState st)
            \<and> iteration_history st' = iteration_history st @ [max_iterations (projectState st)])"
proof -
  let ?st2 = "onLog (createLog ''PATCHER'' ''Analyzing error logs (Abductive Reasoning)...''
                L_info) (enter_phase PATCHING st)"
  have st2: "max_iterations (projectState ?st2) = max_iterations (projectState st)"
    "iteration_count (projectState ?st2) = iteration_count (projectState st)"
    "iteration_history ?st2 = iteration_history st"
    by (simp_all add: onLog_def emit_def enter_phase_def onPhaseChange_def)
  obtain q st3 where c: "consult e PATCHING ?st2 = (q, st3)"
    by (cases "consult e PATCHING ?st2")
  have st3: "projectState st3 = projectState ?st2" "iteration_history st3 = iteration_history ?st2"
    using consult_counts[of e PATCHING ?st2] c by simp_all
  show "max_iterations (projectState st') = max_iterations (projectState st)"
    using assms c st2 st3
    by (auto simp: executePatchingPhase_def Let_def log_thought_counts apply_fixes_counts
          set_iteration_count_def notifyStateUpdate_def addToHistory_def onLog_def emit_def
        split: if_splits sum.splits prod.splits option.splits)
  show "(iteration_count (projectState st') = iteration_count (projectState st)
          \<and> iteration_history st' = iteration_history st)
         \<or> (r = Inr () \<and> iteration_count (projectState st') = max_iterations (projectState st)
            \<and> iteration_history st' = iteration_history st @ [max_iterations (projectState st)])"
    using assms c st2 st3
    by (auto simp: executePatchingPhase_def Let_def log_thought_counts apply_fixes_counts
          set_iteration_count_def notifyStateUpdate_def addToHistory_def onLog_def emit_def
        split: if_splits sum.splits prod.splits option.splits)
qed

lemma patch_attempt_counts:
  assumes "patch_attempt e st = (r, st')"
  shows "max_iterations (projectState st') = max_iterations (projectState st)"
    and "iteration_count (projectState st') = iteration_count (projectState st) + 1
         \<or> iteration_count (projectState st') = max_iterations (projectState st)"
proof -
  let ?st2 = "onLog (createLog ''PATCHER''
       (''Healing attempt '' @ show_int (iteration_count (projectState st) + 1) @ ''/''
        @ show_int (max_iterations (projectState st)) @ ''...'') L_info)
       (set_iteration_count (iteration_count (projectState st) + 1) st)"
  have p: "executePatchingPhase e ?st2 = (r, st')"
    using assms by (simp add: patch_attempt_def Let_def set_iteration_count_def)
  have st2: "max_iterations (projectState ?st2) = max_iterations (projectState st)"
    "iteration_count (projectState ?st2) = iteration_count (projectState st) + 1"
    by (simp_all add: onLog_def emit_def set_iteration_count_def)
  show "max_iterations (projectState st') = max_iterations (projectState st)"
    using executePatchingPhase_counts(1)[OF p] st2 by simp
  show "iteration_count (projectState st') = iteration_count (projectState st) + 1
         \<or> iteration_count (projectState st') = max_iterations (projectState st)"
    using executePatchingPhase_counts(2)[OF p] st2 by auto
qed

lemma push_terminal_log_counts:
  "iteration_count (projectState (push_terminal_log e r st)) = iteration_count (projectState st)
   \<and> max_iterations (projectState (push_terminal_log e r st)) = max_iterations (projectState st)
   \<and> iteration_history (push_terminal_log e r st) = iteration_history st"
  by (simp add: push_terminal_log_def new_date_def)

text \<open>
  The \<open>while\<close> loop of \<open>executeCompilationAndHealing\<close> with the statements behind it.
  \<open>result\<close> is the result of the first validation: the source declares it \<open>const\<close> before the
  loop and never assigns it again, so both the loop condition and the comparison of the
  error texts read the first validation.
\<close>

function healing_loop :: "env \<Rightarrow> CompilationResult \<Rightarrow> orchestrator \<Rightarrow> unit outcome" where
  "healing_loop e result st =
     (if iteration_count (projectState st) < max_iterations (projectState st)
         \<and> \<not> cr_success result then
        (case patch_attempt e st of
           (Inl err, st1) \<Rightarrow> (Inl err, st1)
         | (Inr u, st1) \<Rightarrow>
             (let newResult = validateCode (projectState st1);
                  st2 = push_terminal_log e newResult st1
              in if cr_success newResult then
                   (Inr (), onLog (createLog ''PATCHER''
                              ''Self-healing successful! Build passed.'' L_success) st2)
                 else
                   healing_loop e result
                     (if cr_stderr newResult = cr_stderr result then
                        onLog (same_error_log (iteration_count (projectState st2))) st2
                      else st2)))
      else
        (Inr (),
         if iteration_count (projectState st) \<ge> max_iterations (projectState st) then
           onLog (createLog ''SYSTEM''
                    ''The system encountered persistent errors. Please review the logs.''
                    L_error)
             (onLog max_iterations_log st)
         else st))"
  by pat_completeness auto
termination
proof (relation "measure (\<lambda>(e, result, st).
         nat (max_iterations (projectState st) - iteration_count (projectState st)))",
       goal_cases)
  case 1
  show ?case by simp
next
  case (2 e result st x y b xa xb)
  from 2(2,3) have pa: "patch_attempt e st = (Inr b, y)" by simp
  note c = patch_attempt_counts[OF pa]
  have "iteration_count (projectState xb) = iteration_count (projectState y)"
    "max_iterations (projectState xb) = max_iterations (projectState y)"
    using 2(5) by (simp_all add: push_terminal_log_counts)
  with c 2(1) show ?case
    by (auto simp: onLog_def emit_def)
qed

declare healing_loop.simps [simp del]

definition executeCompilationAndHealing :: "env \<Rightarrow> orchestrator \<Rightarrow> unit outcome" where
  "executeCompilationAndHealing e st =
     (if \<not> isRunning st then (Inr (), st)
      else
        (let st1 = onLog (createLog ''SYSTEM'' ''Starting compilation validation...'' L_system) st;
             result = validateCode (projectState st1);
             st2 = push_terminal_log e result st1
         in if cr_success result then
              (Inr (),
               onLog (createLog ''SYSTEM'' (cr_stdout result) L_info)
                 (onLog (createLog ''SYSTEM'' ''Compilation successful!'' L_success) st2))
            else
              (let st3 = onLog (createLog ''STDERR'' (cr_stderr result) L_error)
                           (onLog (createLog ''SYSTEM''
                              ''Build errors detected. Activating Patcher agent...'' L_error) st2)
               in if \<not> isRecoverableError result then
                    (Inl (Error (''Fatal build error: '' @ take 200 (cr_stderr result))),
                     onLog (createLog ''PATCHER''
                              ''Fatal error detected. Human intervention required.'' L_error) st3)
                  else healing_loop e result st3)))"

subsection \<open>The run\<close>

text \<open>Two awaited steps in a row: the second runs if the first returns.\<close>

definition and_then ::
  "(orchestrator \<Rightarrow> unit outcome) \<Rightarrow> (orchestrator \<Rightarrow> unit outcome) \<Rightarrow> orchestrator \<Rightarrow> unit outcome"
  where
  "and_then f g st = (case f st of (Inl err, st1) \<Rightarrow> (Inl err, st1) | (Inr u, st1) \<Rightarrow> g st1)"

text \<open>Phases 1 to 4 of \<open>runAIWorkflow\<close>.\<close>

definition generate :: "env \<Rightarrow> orchestrator \<Rightarrow> unit outcome" where
  "generate e =
     and_then (executePlanningPhase e)
       (and_then (executeDesignPhase e)
          (and_then (executeArchitecturePhase e) (executeCodingPhase e)))"

text \<open>Phase 6, the last four statements of \<open>runAIWorkflow\<close>.\<close>

definition ready :: "orchestrator \<Rightarrow> unit outcome" where
  "ready st =
     (Inr (),
      onLog (createLog ''SYSTEM'' ''Application ready! All agents completed successfully.''
               L_success)
        (enter_phase READY st))"

definition runAIWorkflow :: "env \<Rightarrow> string \<Rightarrow> orchestrator \<Rightarrow> unit outcome" where
  "runAIWorkflow e userPrompt st =
     (let st1 = onLog (createLog ''SYSTEM''
                  ''Initializing Agentic Studio Pro - Closed-Loop Architecture'' L_system) st;
          st2 = onLog (createLog ''SYSTEM''
                  (''User Intent: '' @ dquote @ userPrompt @ dquote) L_info) st1
      in and_then (generate e) (and_then (executeCompilationAndHealing e) ready) st2)"

text \<open>\<open>runSimulation\<close>: the loop over the steps that remain.\<close>

fun runSimulation_from :: "sim_step list \<Rightarrow> orchestrator \<Rightarrow> orchestrator" where
  "runSimulation_from [] st = st"
| "runSimulation_from (step # steps) st =
     (if \<not> isRunning st then st
      else runSimulation_from steps
             (onLog (step_log step)
               (onPhaseChange (step_phase step)
                 (st\<lparr>timeouts := timeouts st @ [step_delay step],
                     currentPhase := step_phase step\<rparr>))))"

definition runSimulation :: "env \<Rightarrow> orchestrator \<Rightarrow> unit outcome" where
  "runSimulation e st = (Inr (), runSimulation_from (SIMULATION_STEPS e) st)"

definition determineMode :: "env \<Rightarrow> orchestrator \<Rightarrow> thrown + AgentMode" where
  "determineMode e st =
     (if mode (config st) = Simulation then Inr Simulation
      else if mode (config st) = AI then
        (if \<not> isAvailable (apiKey e) then
           Inl (Error ''AI mode requested but Gemini API key not configured'')
         else Inr AI)
      else if isAvailable (apiKey e) then Inr AI else Inr Simulation)"

text \<open>
  \<open>start\<close>. The first \<open>throw\<close> stands before the \<open>try\<close> and leaves the state as it is. Inside
  the \<open>try\<close>, a value raised by the workflow goes to \<open>onError\<close>, and a normal end of the
  workflow to \<open>onComplete\<close>. The call of \<open>onComplete\<close> is the last statement of the \<open>try\<close> block:
  when the consumer's \<open>onComplete\<close> raises a value, the \<open>catch\<close> clause hands that value to
  \<open>onError\<close>. \<open>finally\<close> clears \<open>isRunning\<close>, and the promise of \<open>start\<close> is fulfilled either way.
\<close>

definition start :: "env \<Rightarrow> string \<Rightarrow> orchestrator \<Rightarrow> unit outcome" where
  "start e userPrompt st =
     (if isRunning st then (Inl (Error ''Workflow already running''), st)
      else
        (let st1 = st\<lparr>isRunning := True, currentPhase := PLANNING,
                      projectState := (projectState st)\<lparr>user_prompt := userPrompt,
                                                         status := PLANNING\<rparr>\<rparr>;
             (r, st2) =
               (case determineMode e st1 of
                  Inl err \<Rightarrow> (Inl err, st1)
                | Inr Simulation \<Rightarrow> runSimulation e st1
                | Inr AI \<Rightarrow> runAIWorkflow e userPrompt st1
                | Inr Hybrid \<Rightarrow>
                    (case runAIWorkflow e userPrompt st1 of
                       (Inl err, st') \<Rightarrow>
                         runSimulation e
                           (onLog (createLog ''SYSTEM''
                              ''AI unavailable, running in demo mode...'' L_info) st')
                     | (Inr u, st') \<Rightarrow> (Inr u, st')));
             st3 =
               (case r of
                  Inr u \<Rightarrow>
                    (case onComplete_raises (config st2) of
                       None \<Rightarrow> emit OnComplete st2
                     | Some x \<Rightarrow> emit (OnError x) (emit OnComplete st2))
                | Inl err \<Rightarrow> emit (OnError err) st2)
         in (Inr (), st3\<lparr>isRunning := False\<rparr>)))"

text \<open>\<open>stop\<close>.\<close>

definition stop :: "orchestrator \<Rightarrow> orchestrator" where
  "stop st = st\<lparr>isRunning := False\<rparr>"

section \<open>Facts about strings\<close>

lemma str_includes_sublist: "str_includes s p \<longleftrightarrow> sublist p s"
  by (induction s) (auto simp: str_includes_def sublist_Cons_right)

lemma split_on_not_Nil: "split_on d s \<noteq> []"
  by (induction s) (auto split: list.splits)

lemma hd_split_on: "hd (split_on d s) = takeWhile (\<lambda>c. c \<noteq> d) s"
  by (induction s) (auto split: list.splits simp: split_on_not_Nil)

lemma prefix_takeWhile:
  assumes "prefix p s" and "d \<notin> set p"
  shows "prefix p (takeWhile (\<lambda>c. c \<noteq> d) s)"
proof -
  from assms(1) obtain zs where "s = p @ zs" by (auto simp: prefix_def)
  moreover have "takeWhile (\<lambda>c. c \<noteq> d) (p @ zs) = p @ takeWhile (\<lambda>c. c \<noteq> d) zs"
    using assms(2) by (intro takeWhile_append2) auto
  ultimately show ?thesis by simp
qed

lemma sublist_line:
  "sublist p s \<Longrightarrow> d \<notin> set p \<Longrightarrow> \<exists>l\<in>set (split_on d s). sublist p l"
proof (induction s)
  case Nil
  then show ?case by simp
next
  case (Cons c s)
  obtain l0 ls where sp: "split_on d s = l0 # ls"
    using split_on_not_Nil[of d s] by (cases "split_on d s") auto
  from Cons.prems(1) consider (pre) "prefix p (c # s)" | (sub) "sublist p s"
    by (auto simp: sublist_Cons_right)
  then show ?case
  proof cases
    case pre
    show ?thesis
    proof (cases p)
      case Nil
      then show ?thesis using sp by auto
    next
      case (Cons a p')
      with pre Cons.prems(2) have cd: "c \<noteq> d" and ac: "a = c" and p': "prefix p' s" and dp: "d \<notin> set p'"
        by auto
      have "l0 = takeWhile (\<lambda>c. c \<noteq> d) s" using hd_split_on[of d s] sp by simp
      with prefix_takeWhile[OF p' dp] have "prefix p (c # l0)" using Cons ac by simp
      then have "sublist p (c # l0)" by (rule prefix_imp_sublist)
      then show ?thesis using cd sp by auto
    qed
  next
    case sub
    from Cons.IH[OF sub Cons.prems(2)] obtain l where l: "l \<in> set (split_on d s)" "sublist p l"
      by auto
    show ?thesis
    proof (cases "c = d")
      case True
      then show ?thesis using l by auto
    next
      case False
      from l sp have "l = l0 \<or> l \<in> set ls" by auto
      then show ?thesis
      proof
        assume "l = l0"
        with l have "sublist p (c # l0)" by (simp add: sublist_Cons_right)
        then show ?thesis using False sp by auto
      next
        assume "l \<in> set ls"
        then show ?thesis using False sp l by auto
      qed
    qed
  qed
qed

section \<open>The validator and the placeholder marker\<close>

text \<open>A diagnostic of kind syntax for the marker \<open>// TODO:\<close>.\<close>

definition is_todo_diagnostic :: "build_error \<Rightarrow> bool" where
  "is_todo_diagnostic d = (err_message d = lazy_message ''// TODO:'' \<and> err_type d = Syntax)"

lemma filter_todo_line:
  "filter is_todo_diagnostic (analyzeLine p n l) =
     (if str_includes l ''// TODO:'' then
        [\<lparr>err_file = p, err_line = n, err_column = indexOf l ''// TODO:'',
          err_message = lazy_message ''// TODO:'', err_type = Syntax\<rparr>]
      else [])"
  by (simp add: analyzeLine_def is_todo_diagnostic_def lazyPatterns_def lazy_message_def
        dquote_def squote_def Let_def)

lemma count_todo_lines:
  "length (filter is_todo_diagnostic
            (concat (map (\<lambda>(n, l). analyzeLine p n l) (enumerate k ls))))
     = length (filter (\<lambda>l. str_includes l ''// TODO:'') ls)"
  by (induction ls arbitrary: k) (simp_all add: filter_todo_line)

lemma analyzeLine_file: "d \<in> set (analyzeLine p n l) \<Longrightarrow> err_file d = p"
  by (auto simp: analyzeLine_def Let_def split: if_splits)

lemma analyzeFile_file: "d \<in> set (analyzeFile p c) \<Longrightarrow> err_file d = p"
  by (auto simp: analyzeFile_def dest: analyzeLine_file)

text \<open>
  C6 (amended). For every project state that holds an entry of type file, with a path
  that ends in .ts, .tsx, .js or .jsx, whose content includes the marker \<open>// TODO:\<close>
  (the comment slashes and the blank belong to it), \<open>validateCode\<close> returns success = false and
  exit_code = 1, and its diagnostics include one of kind syntax for that marker in that
  file. The file gets exactly one such diagnostic for each of its lines that hold the
  marker, so exactly one when one line holds it.
\<close>

theorem validateCode_todo_marker:
  assumes f: "f \<in> set (file_system ps)" and t: "ftype f = File" and c: "content f = Some c"
    and p: "is_code_path (path f)" and m: "str_includes c ''// TODO:''"
  shows "\<not> cr_success (validateCode ps) \<and> cr_exit_code (validateCode ps) = 1
       \<and> cr_errors (validateCode ps) = Some (staticAnalysis ps)
       \<and> (\<exists>d \<in> set (staticAnalysis ps). err_file d = path f \<and> is_todo_diagnostic d)
       \<and> length (filter is_todo_diagnostic (analyzeFile (path f) c))
           = length (filter (\<lambda>l. str_includes l ''// TODO:'') (split_on (CHR 0x0A) c))"
proof -
  have cnt: "length (filter is_todo_diagnostic (analyzeFile (path f) c))
           = length (filter (\<lambda>l. str_includes l ''// TODO:'') (split_on (CHR 0x0A) c))"
    by (simp add: analyzeFile_def count_todo_lines)
  have "sublist ''// TODO:'' c" using m by (simp add: str_includes_sublist)
  then obtain l where "l \<in> set (split_on (CHR 0x0A) c)" "sublist ''// TODO:'' l"
    using sublist_line[of "''// TODO:''" c "CHR 0x0A"] by auto
  then have "filter (\<lambda>l. str_includes l ''// TODO:'') (split_on (CHR 0x0A) c) \<noteq> []"
    by (auto simp: filter_empty_conv str_includes_sublist)
  with cnt have "filter is_todo_diagnostic (analyzeFile (path f) c) \<noteq> []" by auto
  then obtain d where d: "d \<in> set (analyzeFile (path f) c)" "is_todo_diagnostic d"
    by (auto simp: filter_empty_conv)
  have "c \<noteq> []" using m by (auto simp: str_includes_def)
  then have "analyzed f = analyzeFile (path f) c"
    using t c p by (simp add: analyzed_def)
  with d(1) have "d \<in> set (analyzed f)" by simp
  with f have in_sa: "d \<in> set (staticAnalysis ps)"
    unfolding staticAnalysis_def by auto
  then have ne: "length (staticAnalysis ps) > 0" by (cases "staticAnalysis ps") auto
  have "err_file d = path f" using d(1) by (rule analyzeFile_file)
  with in_sa d(2) have ex: "\<exists>d \<in> set (staticAnalysis ps). err_file d = path f \<and> is_todo_diagnostic d"
    by auto
  show ?thesis using ne ex cnt by (simp add: validateCode_def Let_def)
qed

text \<open>A file with the marker on one of its two lines.\<close>

definition todo_file :: file_entry where
  "todo_file = \<lparr>path = ''a.ts'', content = Some (''// TODO: x'' @ nl @ ''y();''), ftype = File,
     lastModified = None\<rparr>"

theorem validateCode_todo_marker_witness:
  "\<not> cr_success (validateCode (createInitialState\<lparr>file_system := [todo_file]\<rparr>))
   \<and> cr_exit_code (validateCode (createInitialState\<lparr>file_system := [todo_file]\<rparr>)) = 1
   \<and> length (filter is_todo_diagnostic (analyzeFile ''a.ts'' (''// TODO: x'' @ nl @ ''y();''))) = 1"
proof -
  let ?ps = "createInitialState\<lparr>file_system := [todo_file]\<rparr>"
  have 1: "todo_file \<in> set (file_system ?ps)" by simp
  have 2: "ftype todo_file = File" by (simp add: todo_file_def)
  have 3: "content todo_file = Some (''// TODO: x'' @ nl @ ''y();'')" by (simp add: todo_file_def)
  have 4: "is_code_path (path todo_file)" by (simp add: todo_file_def is_code_path_def endsWith_def)
  have 5: "str_includes (''// TODO: x'' @ nl @ ''y();'') ''// TODO:''"
    by (simp add: str_includes_def nl_def)
  have 6: "length (filter (\<lambda>l. str_includes l ''// TODO:'')
             (split_on (CHR 0x0A) (''// TODO: x'' @ nl @ ''y();''))) = 1"
    by (simp add: str_includes_def nl_def)
  from validateCode_todo_marker[OF 1 2 3 4 5] 6 show ?thesis
    by (simp add: todo_file_def)
qed

text \<open>
  C6 as the claim words it, with the marker \<open>TODO:\<close>, fails: a code file whose content holds
  \<open>TODO:\<close> without the comment slashes passes the validation.
\<close>

theorem validateCode_todo_counterexample:
  "str_includes ''x = 1; /* TODO: y */'' ''TODO:''
   \<and> is_code_path ''a.ts''
   \<and> cr_success (validateCode (createInitialState\<lparr>file_system :=
        [\<lparr>path = ''a.ts'', content = Some ''x = 1; /* TODO: y */'', ftype = File,
          lastModified = None\<rparr>]\<rparr>))
   \<and> cr_exit_code (validateCode (createInitialState\<lparr>file_system :=
        [\<lparr>path = ''a.ts'', content = Some ''x = 1; /* TODO: y */'', ftype = File,
          lastModified = None\<rparr>]\<rparr>)) = 0
   \<and> cr_errors (validateCode (createInitialState\<lparr>file_system :=
        [\<lparr>path = ''a.ts'', content = Some ''x = 1; /* TODO: y */'', ftype = File,
          lastModified = None\<rparr>]\<rparr>)) = None"
  by (simp add: validateCode_def staticAnalysis_def analyzed_def is_code_path_def endsWith_def
        analyzeFile_def analyzeLine_def str_includes_def lazyPatterns_def count_char_def
        matches_field_def trim_def is_space_def is_word_def)

section \<open>Scenarios\<close>

text \<open>
  Concrete surroundings for the examples below. In \<open>scripted_env answers parse\<close> the service
  answers request number \<open>k\<close> with the one-letter text made of the \<open>k\<close>-th letter of
  \<open>answers\<close>, \<open>JSON.parse\<close> reads every text as the payload \<open>parse\<close> gives for it, and the clock
  always shows \<open>t\<close>.
\<close>

definition no_payload :: payload where
  "no_payload =
     \<lparr>thought = None, p_plan = None, p_design_system = None, p_file_system = None,
      p_files = None, p_fixes = None, request_human_help = False, p_output = None,
      p_raw = False\<rparr>"

definition scripted_env :: "string \<Rightarrow> (string \<Rightarrow> payload) \<Rightarrow> env" where
  "scripted_env answers parse =
     \<lparr>apiKey = Some ''key'',
      service = (\<lambda>k msgs. HttpOk (if k < length answers then [answers ! k] else ''-'')),
      JSON_parse = (\<lambda>t. Inr (parse t)),
      buildAgentPrompt = (\<lambda>ph up ps. ''prompt''),
      SYSTEM_PROMPT = ''system'',
      SIMULATION_STEPS = [],
      clock = (\<lambda>k. ''t'')\<rparr>"

definition ai_config :: AgentWorkflowConfig where
  "ai_config = \<lparr>mode = AI, has_onStateUpdate = False, onComplete_raises = None\<rparr>"

definition code_file :: "string \<Rightarrow> string \<Rightarrow> file_entry" where
  "code_file p c = \<lparr>path = p, content = Some c, ftype = File, lastModified = None\<rparr>"

text \<open>A new orchestrator whose project state holds the given files.\<close>

definition with_files :: "file_entry list \<Rightarrow> orchestrator" where
  "with_files fs =
     (new_orchestrator ai_config)\<lparr>projectState := createInitialState\<lparr>file_system := fs\<rparr>\<rparr>"

section \<open>Patch fixes\<close>

lemma find_sub_prefix: "find_sub s p = Some i \<Longrightarrow> i \<le> length s \<and> prefix p (drop i s)"
  by (induction s arbitrary: i) (auto split: if_splits)

lemma find_sub_leftmost: "find_sub s p = Some i \<Longrightarrow> j < i \<Longrightarrow> \<not> prefix p (drop j s)"
proof (induction s arbitrary: i j)
  case Nil
  then show ?case by (auto split: if_splits)
next
  case (Cons c s)
  then show ?case by (cases j) (auto split: if_splits)
qed

lemma find_sub_split:
  assumes "find_sub s p = Some i"
  shows "s = take i s @ p @ drop (i + length p) s"
proof -
  from find_sub_prefix[OF assms] obtain r where r: "drop i s = p @ r"
    by (auto simp: prefix_def)
  then have "drop (length p) (drop i s) = r" by simp
  then have "drop (i + length p) s = r" by (simp add: add.commute)
  with r show ?thesis by (metis append_take_drop_id)
qed

lemma getSubstitution_plain:
  "CHR ''$'' \<notin> set rep \<Longrightarrow> getSubstitution m pre post rep = rep"
  by (induction m pre post rep rule: getSubstitution.induct) auto

lemma replace_absent: "\<not> str_includes s pat \<Longrightarrow> replace s pat rep = s"
  by (simp add: replace_def str_includes_def)

text \<open>
  Where \<open>before\<close> does occur, the leftmost occurrence alone is replaced, and the rest of the
  content stays. What is put in its place is the expansion of \<open>after\<close>, which is \<open>after\<close>
  itself when that holds no dollar sign.
\<close>

lemma replace_leftmost:
  assumes "find_sub c b = Some i" and "CHR ''$'' \<notin> set a"
  shows "replace c b a = take i c @ a @ drop (i + length b) c"
    and "c = take i c @ b @ drop (i + length b) c"
    and "\<forall>j<i. \<not> prefix b (drop j c)"
  using assms find_sub_split[OF assms(1)] find_sub_leftmost[OF assms(1)]
  by (simp_all add: replace_def getSubstitution_plain)

lemma find_index_Some:
  "find_index P xs = Some i \<Longrightarrow> i < length xs \<and> P (xs ! i) \<and> (\<forall>j<i. \<not> P (xs ! j))"
proof (induction xs arbitrary: i)
  case Nil
  then show ?case by simp
next
  case (Cons x xs)
  show ?case
  proof (cases "P x")
    case True
    with Cons.prems show ?thesis by simp
  next
    case False
    with Cons.prems obtain k where k: "find_index P xs = Some k" "i = Suc k" by auto
    from Cons.IH[OF k(1)] False k(2) show ?thesis
      by (auto simp: less_Suc_eq_0_disj)
  qed
qed

text \<open>
  C8. A Patch fix is applied by \<open>apply_fix\<close>; its target is the first entry whose path is the
  fix's \<open>file\<close>. If the \<open>before\<close> text of the fix does not occur in the content of the target,
  the fix leaves that content as it is: the file system keeps its length, the target
  keeps its content, path and type (only its \<open>lastModified\<close> stamp is renewed, and only when
  the content is not empty), every other entry is unchanged, and so the contents of all
  files are the same as before.
\<close>

theorem apply_fix_before_absent:
  assumes i: "find_index (\<lambda>f. path f = fix_file fx) (file_system (projectState st)) = Some i"
    and c: "content (file_system (projectState st) ! i) = Some c"
    and absent: "\<not> str_includes c (fix_before fx)"
  shows "length (file_system (projectState (apply_fix e fx n st)))
           = length (file_system (projectState st))
       \<and> content (file_system (projectState (apply_fix e fx n st)) ! i) = Some c
       \<and> path (file_system (projectState (apply_fix e fx n st)) ! i)
           = path (file_system (projectState st) ! i)
       \<and> ftype (file_system (projectState (apply_fix e fx n st)) ! i)
           = ftype (file_system (projectState st) ! i)
       \<and> (\<forall>j. j \<noteq> i \<longrightarrow> file_system (projectState (apply_fix e fx n st)) ! j
                          = file_system (projectState st) ! j)
       \<and> map content (file_system (projectState (apply_fix e fx n st)))
           = map content (file_system (projectState st))"
proof -
  let ?fs = "file_system (projectState st)"
  have len: "i < length ?fs" using find_index_Some[OF i] by simp
  have r: "replace c (fix_before fx) (fix_after fx) = c" using absent by (rule replace_absent)
  show ?thesis
  proof (cases "c = []")
    case True
    then show ?thesis using i c by (simp add: apply_fix_def)
  next
    case False
    have fs': "file_system (projectState (apply_fix e fx n st))
        = ?fs[i := (?fs ! i)\<lparr>content := Some c, lastModified := Some (clock e (dates st))\<rparr>]"
      using i c False r by (simp add: apply_fix_def new_date_def onLog_def emit_def Let_def)
    have "map content (?fs[i := (?fs ! i)\<lparr>content := Some c,
             lastModified := Some (clock e (dates st))\<rparr>]) = map content ?fs"
      using len c by (simp add: map_update list_update_same_conv)
    then show ?thesis using len c by (simp add: fs')
  qed
qed

theorem apply_fix_before_absent_witness:
  "map content (file_system (projectState
      (apply_fix (scripted_env [] (\<lambda>t. no_payload))
         \<lparr>fix_file = ''a.ts'', fix_line = 1, fix_before = ''z'', fix_after = ''w''\<rparr> 0
         (with_files [code_file ''a.ts'' ''x = 1;'', code_file ''b.ts'' ''y = 2;'']))))
     = [Some ''x = 1;'', Some ''y = 2;'']
   \<and> map lastModified (file_system (projectState
      (apply_fix (scripted_env [] (\<lambda>t. no_payload))
         \<lparr>fix_file = ''a.ts'', fix_line = 1, fix_before = ''z'', fix_after = ''w''\<rparr> 0
         (with_files [code_file ''a.ts'' ''x = 1;'', code_file ''b.ts'' ''y = 2;'']))))
     = [Some ''t'', None]"
proof -
  let ?st = "with_files [code_file ''a.ts'' ''x = 1;'', code_file ''b.ts'' ''y = 2;'']"
  let ?fx = "\<lparr>fix_file = ''a.ts'', fix_line = 1, fix_before = ''z'', fix_after = ''w''\<rparr>"
  have 1: "find_index (\<lambda>f. path f = fix_file ?fx) (file_system (projectState ?st)) = Some 0"
    by (simp add: with_files_def code_file_def)
  have 2: "content (file_system (projectState ?st) ! 0) = Some ''x = 1;''"
    by (simp add: with_files_def code_file_def)
  have 3: "\<not> str_includes ''x = 1;'' (fix_before ?fx)"
    by (simp add: str_includes_def)
  have 4: "map content (file_system (projectState ?st)) = [Some ''x = 1;'', Some ''y = 2;'']"
    by (simp add: with_files_def code_file_def)
  have 5: "map lastModified (file_system (projectState
             (apply_fix (scripted_env [] (\<lambda>t. no_payload)) ?fx 0 ?st))) = [Some ''t'', None]"
    by (simp add: apply_fix_def with_files_def code_file_def new_date_def scripted_env_def
          new_orchestrator_def onLog_def emit_def replace_def)
  from apply_fix_before_absent[OF 1 2 3, of "scripted_env [] (\<lambda>t. no_payload)" 0] 4 5
  show ?thesis by simp
qed

text \<open>
  C10, the code at an input where it departs from the claim. The file holds
  \<open>total = n; n = 0;\<close> and the fix replaces \<open>n\<close> by \<open>cost$$\<close>. The leftmost \<open>n\<close> alone is
  replaced and the later one stays, as the claim says; but the text put in is \<open>cost$\<close>, not
  the \<open>after\<close> string: \<open>String.prototype.replace\<close> reads \<open>$$\<close>, \<open>$&\<close>, \<open>$`\<close> and \<open>$'\<close> in its
  second argument as patterns.
\<close>

theorem apply_fix_dollar_pattern:
  "map content (file_system (projectState
      (apply_fix (scripted_env [] (\<lambda>t. no_payload))
         \<lparr>fix_file = ''a.ts'', fix_line = 1, fix_before = ''n'', fix_after = ''cost$$''\<rparr> 0
         (with_files [code_file ''a.ts'' ''total = n; n = 0;'']))))
     = [Some ''total = cost$; n = 0;'']"
  by (simp add: apply_fix_def with_files_def code_file_def new_date_def scripted_env_def
        new_orchestrator_def onLog_def emit_def replace_def)

section \<open>Retries and backoff\<close>




















section \<open>Parsing the response\<close>

lemma find_sub_first:
  assumes "p \<noteq> []" and "\<not> sublist p (xs @ butlast p)"
  shows "find_sub (xs @ p @ ys) p = Some (length xs)"
  using assms(2)
proof (induction xs)
  case Nil
  from assms(1) obtain c p' where "p = c # p'" by (cases p) auto
  then show ?case by simp
next
  case (Cons x xs)
  have no: "\<not> prefix p (x # xs @ p @ ys)"
  proof
    assume pre: "prefix p (x # xs @ p @ ys)"
    have "prefix (butlast p) p" by (rule prefixeq_butlast)
    then have "prefix ((x # xs) @ butlast p) ((x # xs) @ p @ ys)"
      by (metis prefix_def append.assoc same_prefix_prefix)
    moreover have "length p \<le> length ((x # xs) @ butlast p)" using assms(1) by simp
    ultimately have "prefix p ((x # xs) @ butlast p)"
      using pre prefix_length_prefix[of p "(x # xs) @ p @ ys" "(x # xs) @ butlast p"] by simp
    then have "sublist p ((x # xs) @ butlast p)" by (rule prefix_imp_sublist)
    with Cons.prems show False by simp
  qed
  have "\<not> sublist p (xs @ butlast p)" using Cons.prems by (simp add: sublist_Cons_right)
  from Cons.IH[OF this] no show ?case by simp
qed

lemma dropWhile_all: "list_all P xs \<Longrightarrow> dropWhile P (xs @ ys) = dropWhile P ys"
  by (induction xs) auto

lemma strip_spaces:
  assumes "list_all is_space ws" and "body = [] \<or> \<not> is_space (last body)"
  shows "rev (dropWhile is_space (rev (body @ ws))) = body"
proof -
  have "list_all is_space (rev ws)" using assms(1) by (simp add: list_all_iff)
  then have "dropWhile is_space (rev (body @ ws)) = dropWhile is_space (rev body)"
    by (simp add: dropWhile_all)
  also have "\<dots> = rev body"
  proof (cases "body = []")
    case True
    then show ?thesis by simp
  next
    case False
    with assms(2) have "\<not> is_space (hd (rev body))" by (simp add: hd_rev)
    with False show ?thesis by (cases "rev body") auto
  qed
  finally show ?thesis by simp
qed

text \<open>
  A fenced block in the text: \<open>```json\<close>, white space, a body that neither starts nor ends
  with white space, white space, \<open>```\<close>; it is the leftmost \<open>```json\<close> of the text, and no
  \<open>```\<close> stands before the closing one. Then \<open>fenced_json\<close> is the body.
\<close>

lemma fenced_json_block:
  assumes raw: "raw = pre @ ''```json'' @ ws1 @ body @ ws2 @ ''```'' @ post"
    and first: "\<not> sublist ''```json'' (pre @ ''```jso'')"
    and ws: "list_all is_space ws1" "list_all is_space ws2"
    and trimmed: "body = [] \<or> (\<not> is_space (hd body) \<and> \<not> is_space (last body))"
    and closed: "\<not> sublist ''```'' (body @ ws2 @ ''``'')"
  shows "fenced_json raw = Some body"
proof -
  have i: "find_sub raw ''```json'' = Some (length pre)"
    unfolding raw using first find_sub_first[of "''```json''" pre] by simp
  have d: "drop (length pre + 7) raw = ws1 @ body @ ws2 @ ''```'' @ post"
    unfolding raw by simp
  have bt: "\<not> is_space (CHR 0x60)" by (simp add: is_space_def)
  show ?thesis
  proof (cases "body = []")
    case True
    have "dropWhile is_space (drop (length pre + 7) raw) = ''```'' @ post"
      using ws bt True by (simp add: d dropWhile_all)
    then show ?thesis using i True by (simp add: fenced_json_def Let_def)
  next
    case False
    with trimmed have "\<not> is_space (hd body)" by simp
    with False have "dropWhile is_space (body @ ws2 @ ''```'' @ post) = body @ ws2 @ ''```'' @ post"
      by (cases body) auto
    then have rest: "dropWhile is_space (drop (length pre + 7) raw) = body @ ws2 @ ''```'' @ post"
      using ws by (simp add: d dropWhile_all)
    have j: "find_sub (body @ ws2 @ ''```'' @ post) ''```'' = Some (length (body @ ws2))"
      using closed find_sub_first[of "''```''" "body @ ws2" post] by simp
    have "rev (dropWhile is_space (rev (body @ ws2))) = body"
      using ws(2) trimmed by (intro strip_spaces) auto
    then show ?thesis
      using i rest j by (simp add: fenced_json_def Let_def)
  qed
qed

text \<open>
  C4 (amended). For every text and whatever \<open>JSON.parse\<close> does, \<open>parseAgentResponse\<close> returns a
  value and raises nothing. If the first fenced JSON block of the text, as \<open>fenced_json\<close>
  finds it, parses, the parsed value is returned; otherwise (there is no fenced block, or
  the first one does not parse, whatever stands behind it), if the entire text parses,
  that value is returned; otherwise the fallback payload is returned, in which \<open>raw\<close> is true
  and \<open>output\<close> is the unparsed text. The last part says what the first fenced block is: it
  starts behind the leftmost \<open>```json\<close> and ends before the next \<open>```\<close>, without the white space
  around it.
\<close>

theorem parseAgentResponse_never_throws:
  "(\<exists>v. parseAgentResponse P raw ph = Inr v)
   \<and> (\<forall>body v. fenced_json raw = Some body \<and> P body = Inr v \<longrightarrow>
         parseAgentResponse P raw ph = Inr v)
   \<and> (\<forall>v. \<not> (\<exists>body v'. fenced_json raw = Some body \<and> P body = Inr v') \<and> P raw = Inr v \<longrightarrow>
         parseAgentResponse P raw ph = Inr v)
   \<and> (\<not> (\<exists>body v'. fenced_json raw = Some body \<and> P body = Inr v') \<and> \<not> (\<exists>v. P raw = Inr v) \<longrightarrow>
         parseAgentResponse P raw ph = Inr (fallback_payload raw))
   \<and> p_raw (fallback_payload raw) \<and> p_output (fallback_payload raw) = Some raw
   \<and> (raw = pre @ ''```json'' @ ws1 @ body @ ws2 @ ''```'' @ post
       \<and> \<not> sublist ''```json'' (pre @ ''```jso'')
       \<and> list_all is_space ws1 \<and> list_all is_space ws2
       \<and> (body = [] \<or> (\<not> is_space (hd body) \<and> \<not> is_space (last body)))
       \<and> \<not> sublist ''```'' (body @ ws2 @ ''``'') \<longrightarrow>
         fenced_json raw = Some body)"
proof (intro conjI allI impI)
  show "\<exists>v. parseAgentResponse P raw ph = Inr v"
    by (auto simp: parseAgentResponse_def Let_def split: option.splits sum.splits)
  show "parseAgentResponse P raw ph = Inr v"
    if "fenced_json raw = Some body \<and> P body = Inr v" for body v
    using that by (simp add: parseAgentResponse_def Let_def)
  show "parseAgentResponse P raw ph = Inr v"
    if "\<not> (\<exists>body v'. fenced_json raw = Some body \<and> P body = Inr v') \<and> P raw = Inr v" for v
    using that by (auto simp: parseAgentResponse_def Let_def split: option.splits sum.splits)
  show "parseAgentResponse P raw ph = Inr (fallback_payload raw)"
    if "\<not> (\<exists>body v'. fenced_json raw = Some body \<and> P body = Inr v') \<and> \<not> (\<exists>v. P raw = Inr v)"
    using that by (auto simp: parseAgentResponse_def Let_def split: option.splits sum.splits)
  show "p_raw (fallback_payload raw)" "p_output (fallback_payload raw) = Some raw"
    by (simp_all add: fallback_payload_def)
  show "fenced_json raw = Some body"
    if "raw = pre @ ''```json'' @ ws1 @ body @ ws2 @ ''```'' @ post
       \<and> \<not> sublist ''```json'' (pre @ ''```jso'')
       \<and> list_all is_space ws1 \<and> list_all is_space ws2
       \<and> (body = [] \<or> (\<not> is_space (hd body) \<and> \<not> is_space (last body)))
       \<and> \<not> sublist ''```'' (body @ ws2 @ ''``'')"
    using that fenced_json_block[of raw pre ws1 body ws2 post] by blast
qed


text \<open>A parser that accepts the text \<open>{}\<close> alone.\<close>

definition parse_braces :: "string \<Rightarrow> thrown + payload" where
  "parse_braces s = (if s = ''{}'' then Inr no_payload else Inl (Error ''Unexpected token''))"

theorem parseAgentResponse_never_throws_witness:
  "parseAgentResponse parse_braces ''Plan: ```json {} ``` done'' PLANNING = Inr no_payload
   \<and> parseAgentResponse parse_braces ''{}'' CODING = Inr no_payload
   \<and> parseAgentResponse parse_braces ''hello'' PATCHING = Inr (fallback_payload ''hello'')
   \<and> p_raw (fallback_payload ''hello'')"
proof -
  have a1: "''Plan: ```json {} ``` done'' = ''Plan: '' @ ''```json'' @ '' '' @ ''{}'' @ '' '' @ ''```'' @ '' done''"
    by simp
  have a2: "\<not> sublist ''```json'' (''Plan: '' @ ''```jso'')"
    by (simp add: str_includes_sublist[symmetric] str_includes_def)
  have a3: "list_all is_space '' ''" by (simp add: is_space_def)
  have a4: "''{}'' = [] \<or> (\<not> is_space (hd ''{}'') \<and> \<not> is_space (last ''{}''))"
    by (simp add: is_space_def)
  have a5: "\<not> sublist ''```'' (''{}'' @ '' '' @ ''``'')"
    by (simp add: str_includes_sublist[symmetric] str_includes_def)
  have f: "fenced_json ''Plan: ```json {} ``` done'' = Some ''{}''"
    using parseAgentResponse_never_throws[of parse_braces "''Plan: ```json {} ``` done''" PLANNING
        "''Plan: ''" "'' ''" "''{}''" "'' ''" "'' done''"] a1 a2 a3 a4 a5
    by blast
  have p: "parse_braces ''{}'' = Inr no_payload" by (simp add: parse_braces_def)
  have 1: "parseAgentResponse parse_braces ''Plan: ```json {} ``` done'' PLANNING = Inr no_payload"
    using parseAgentResponse_never_throws[of parse_braces "''Plan: ```json {} ``` done''" PLANNING]
      f p by blast
  have n2: "fenced_json ''{}'' = None" "fenced_json ''hello'' = None"
    by (simp_all add: fenced_json_def)
  have 2: "parseAgentResponse parse_braces ''{}'' CODING = Inr no_payload"
    using parseAgentResponse_never_throws[of parse_braces "''{}''" CODING] n2 p by simp
  have q: "\<not> (\<exists>v. parse_braces ''hello'' = Inr v)" by (simp add: parse_braces_def)
  have 3: "parseAgentResponse parse_braces ''hello'' PATCHING = Inr (fallback_payload ''hello'')"
    using parseAgentResponse_never_throws[of parse_braces "''hello''" PATCHING] n2 q by simp
  have 4: "p_raw (fallback_payload ''hello'')"
    using parseAgentResponse_never_throws[of parse_braces "''hello''" PATCHING] by blast
  from 1 2 3 4 show ?thesis by blast
qed

text \<open>A parser that accepts the text \<open>{}\<close> and the object whose one string holds \<open>```\<close>,
  and nothing else.\<close>

definition parse_two :: "string \<Rightarrow> thrown + payload" where
  "parse_two s =
     (if s = ''{}'' \<or> s = ''{'' @ dquote @ ''a'' @ dquote @ '': '' @ dquote @ ''```'' @ dquote @ ''}''
      then Inr no_payload else Inl (Error ''Unexpected token''))"

text \<open>
  C4 as the claim words it, for any fenced JSON block that parses, fails. The first text
  holds two fenced blocks, of which the second parses: the first block alone is tried,
  then the entire text, and the fallback payload is returned. The second text holds one
  block, a JSON object with \<open>```\<close> inside a string: the block found ends at that \<open>```\<close>, inside
  the string, and the fallback payload is returned although the block parses.
\<close>

theorem parseAgentResponse_later_block_counterexample:
  "fenced_json ''```json {} ```'' = Some ''{}''
   \<and> parse_two ''{}'' = Inr no_payload
   \<and> ''```json {x} ``` or ```json {} ```'' = ''```json {x} ``` or '' @ ''```json {} ```''
   \<and> parseAgentResponse parse_two ''```json {x} ``` or ```json {} ```'' CODING
       = Inr (fallback_payload ''```json {x} ``` or ```json {} ```'')
   \<and> parse_two (''{'' @ dquote @ ''a'' @ dquote @ '': '' @ dquote @ ''```'' @ dquote @ ''}'')
       = Inr no_payload
   \<and> parseAgentResponse parse_two
         (''```json '' @ ''{'' @ dquote @ ''a'' @ dquote @ '': '' @ dquote @ ''```'' @ dquote
            @ ''}'' @ '' ```'') CODING
       = Inr (fallback_payload
           (''```json '' @ ''{'' @ dquote @ ''a'' @ dquote @ '': '' @ dquote @ ''```'' @ dquote
              @ ''}'' @ '' ```''))"
  by code_simp

section \<open>The callbacks of a run\<close>

text \<open>
  The terminal callbacks are \<open>onComplete\<close> and \<open>onError\<close>. A generating event is neither
  terminal nor the change to the Patching phase; a quiet event is not terminal.
  \<open>emits P st st'\<close>: from \<open>st\<close> to \<open>st'\<close> the callback calls have only grown, by events that
  pass \<open>P\<close>. An inner step also keeps \<open>isRunning\<close> and the configuration.
\<close>

definition is_terminal :: "event \<Rightarrow> bool" where
  "is_terminal ev = (case ev of OnComplete \<Rightarrow> True | OnError err \<Rightarrow> True | _ \<Rightarrow> False)"

definition gen_event :: "event \<Rightarrow> bool" where
  "gen_event ev = (\<not> is_terminal ev \<and> ev \<noteq> OnPhaseChange PATCHING)"

definition emits :: "(event \<Rightarrow> bool) \<Rightarrow> orchestrator \<Rightarrow> orchestrator \<Rightarrow> bool" where
  "emits P st st' = (\<exists>es. events st' = events st @ es \<and> list_all P es)"

definition same_counts :: "orchestrator \<Rightarrow> orchestrator \<Rightarrow> bool" where
  "same_counts st st' =
     (iteration_count (projectState st') = iteration_count (projectState st)
      \<and> max_iterations (projectState st') = max_iterations (projectState st)
      \<and> iteration_history st' = iteration_history st)"

definition inner_step :: "(event \<Rightarrow> bool) \<Rightarrow> orchestrator \<Rightarrow> orchestrator \<Rightarrow> bool" where
  "inner_step P st st' =
     (emits P st st' \<and> isRunning st' = isRunning st \<and> config st' = config st)"

lemma emits_refl: "emits P st st"
  by (simp add: emits_def)

lemma emits_trans: "emits P a b \<Longrightarrow> emits P b c \<Longrightarrow> emits P a c"
  by (auto simp: emits_def)

lemma emits_mono: "emits P a b \<Longrightarrow> (\<And>ev. P ev \<Longrightarrow> Q ev) \<Longrightarrow> emits Q a b"
  by (auto simp: emits_def list_all_iff)

lemma inner_step_refl: "inner_step P st st"
  by (simp add: inner_step_def emits_refl)

lemma inner_step_trans: "inner_step P a b \<Longrightarrow> inner_step P b c \<Longrightarrow> inner_step P a c"
  by (auto simp: inner_step_def intro: emits_trans)

lemma inner_step_mono: "inner_step P a b \<Longrightarrow> (\<And>ev. P ev \<Longrightarrow> Q ev) \<Longrightarrow> inner_step Q a b"
  by (auto simp: inner_step_def intro: emits_mono)

lemma same_counts_refl: "same_counts st st"
  by (simp add: same_counts_def)

lemma same_counts_trans: "same_counts a b \<Longrightarrow> same_counts b c \<Longrightarrow> same_counts a c"
  by (simp add: same_counts_def)

lemma consult_frame: "\<exists>n ws. snd (consult e ph st) = st\<lparr>requests := n, timeouts := ws\<rparr>"
  by (auto simp: consult_def geminiService_sendPrompt_def Let_def split: sum.splits prod.splits)

lemma gen_event_simps:
  "gen_event (OnLog l)" "ph \<noteq> PATCHING \<Longrightarrow> gen_event (OnPhaseChange ph)"
  "gen_event (OnStateUpdate ps)"
  by (simp_all add: gen_event_def is_terminal_def)

lemma merge_files_frame:
  "events (fold (merge_file e) files st) = events st
   \<and> isRunning (fold (merge_file e) files st) = isRunning st
   \<and> config (fold (merge_file e) files st) = config st
   \<and> same_counts st (fold (merge_file e) files st)"
proof (induction files arbitrary: st)
  case Nil
  show ?case by (simp add: same_counts_def)
next
  case (Cons f files)
  have "events (merge_file e f st) = events st \<and> isRunning (merge_file e f st) = isRunning st
      \<and> config (merge_file e f st) = config st \<and> same_counts st (merge_file e f st)"
    by (simp add: merge_file_def new_date_def same_counts_def Let_def split: option.splits)
  with Cons.IH[of "merge_file e f st"] show ?case
    by (simp add: same_counts_def)
qed

lemma executePlanningPhase_step:
  "inner_step gen_event st (snd (executePlanningPhase e st))
   \<and> same_counts st (snd (executePlanningPhase e st))"
  using consult_frame[of e PLANNING
      "onLog (createLog ''PLANNER'' ''Analyzing user intent and defining requirements...'' L_info)
        (onLog (createLog ''PLANNER'' ''Starting Planning Phase...'' L_info)
          (enter_phase PLANNING st))"]
  by (auto simp: executePlanningPhase_def Let_def inner_step_def emits_def same_counts_def
        gen_event_simps onLog_def emit_def enter_phase_def onPhaseChange_def
        notifyStateUpdate_def addToHistory_def log_thought_def
      split: prod.splits sum.splits option.splits)


lemma executeDesignPhase_step:
  "inner_step gen_event st (snd (executeDesignPhase e st))
   \<and> same_counts st (snd (executeDesignPhase e st))"
  using consult_frame[of e DESIGNING
      "onLog (createLog ''DESIGNER'' (''Performing '' @ dquote @ ''Vibe Check'' @ dquote
                @ '' and creating design system...'') L_info)
        (onLog (createLog ''DESIGNER'' ''Starting Design Phase...'' L_info)
          (enter_phase DESIGNING st))"]
  by (auto simp: executeDesignPhase_def Let_def inner_step_def emits_def same_counts_def
        gen_event_simps onLog_def emit_def enter_phase_def onPhaseChange_def
        notifyStateUpdate_def addToHistory_def log_thought_def
      split: prod.splits sum.splits option.splits)

lemma executeArchitecturePhase_step:
  "inner_step gen_event st (snd (executeArchitecturePhase e st))
   \<and> same_counts st (snd (executeArchitecturePhase e st))"
  using consult_frame[of e ARCHITECTING
      "onLog (createLog ''ARCHITECT'' ''Scaffolding file system and project structure...'' L_info)
        (onLog (createLog ''ARCHITECT'' ''Starting Architecture Phase...'' L_info)
          (enter_phase ARCHITECTING st))"]
  by (auto simp: executeArchitecturePhase_def Let_def inner_step_def emits_def same_counts_def
        gen_event_simps onLog_def emit_def enter_phase_def onPhaseChange_def
        notifyStateUpdate_def addToHistory_def log_thought_def
      split: prod.splits sum.splits option.splits)

lemmas merge_files_events = merge_files_frame[THEN conjunct1]
lemmas merge_files_isRunning = merge_files_frame[THEN conjunct2, THEN conjunct1]
lemmas merge_files_config = merge_files_frame[THEN conjunct2, THEN conjunct2, THEN conjunct1]
lemmas merge_files_counts =
  merge_files_frame[THEN conjunct2, THEN conjunct2, THEN conjunct2, unfolded same_counts_def]

lemma executeCodingPhase_step:
  "inner_step gen_event st (snd (executeCodingPhase e st))
   \<and> same_counts st (snd (executeCodingPhase e st))"
  using consult_frame[of e CODING
      "onLog (createLog ''CODER''
                ''Implementing full application (Anti-Laziness Protocol enforced)...'' L_info)
        (onLog (createLog ''CODER'' ''Starting Coding Phase...'' L_info)
          (enter_phase CODING st))"]
  by (auto simp: executeCodingPhase_def Let_def inner_step_def emits_def same_counts_def
        gen_event_simps onLog_def emit_def enter_phase_def onPhaseChange_def
        notifyStateUpdate_def addToHistory_def log_thought_def
        merge_files_events merge_files_isRunning merge_files_config merge_files_counts
      split: prod.splits sum.splits option.splits)

text \<open>The events a step has added.\<close>

definition new_events :: "orchestrator \<Rightarrow> orchestrator \<Rightarrow> event list" where
  "new_events st st' = drop (length (events st)) (events st')"

lemma apply_fix_frame:
  "(\<exists>es. events (apply_fix e fx n st) = events st @ es \<and> list_all gen_event es)
   \<and> isRunning (apply_fix e fx n st) = isRunning st
   \<and> config (apply_fix e fx n st) = config st"
  by (simp add: apply_fix_def new_date_def onLog_def emit_def Let_def gen_event_simps
      split: option.splits)

lemma apply_fixes_frame:
  "(\<exists>es. events (apply_fixes e fxs n st) = events st @ es \<and> list_all gen_event es)
   \<and> isRunning (apply_fixes e fxs n st) = isRunning st
   \<and> config (apply_fixes e fxs n st) = config st"
proof (induction fxs arbitrary: n st)
  case Nil
  show ?case by simp
next
  case (Cons fx fxs)
  from apply_fix_frame[of e fx n st] Cons.IH[of "Suc n" "apply_fix e fx n st"]
  show ?case by auto
qed

lemma apply_fixes_events:
  "events (apply_fixes e fxs n st) = events st @ new_events st (apply_fixes e fxs n st)"
  "list_all gen_event (new_events st (apply_fixes e fxs n st))"
  using apply_fixes_frame[of e fxs n st] by (auto simp: new_events_def)

lemmas apply_fixes_isRunning = apply_fixes_frame[THEN conjunct2, THEN conjunct1]
lemmas apply_fixes_config = apply_fixes_frame[THEN conjunct2, THEN conjunct2]

definition quiet :: "event \<Rightarrow> bool" where
  "quiet ev = (\<not> is_terminal ev)"

lemma gen_event_quiet: "gen_event ev \<Longrightarrow> quiet ev"
  by (simp add: gen_event_def quiet_def)

lemma quiet_simps: "quiet (OnLog l)" "quiet (OnPhaseChange ph)" "quiet (OnStateUpdate ps)"
  by (simp_all add: quiet_def is_terminal_def)

lemma apply_fixes_quiet: "list_all quiet (new_events st (apply_fixes e fxs n st))"
  using apply_fixes_events(2)[of st e fxs n] by (auto simp: list_all_iff gen_event_quiet)

lemma executePatchingPhase_step:
  "inner_step quiet st (snd (executePatchingPhase e st))"
  using consult_frame[of e PATCHING
      "onLog (createLog ''PATCHER'' ''Analyzing error logs (Abductive Reasoning)...'' L_info)
          (enter_phase PATCHING st)"]
  by (auto simp: executePatchingPhase_def Let_def inner_step_def emits_def
        quiet_simps onLog_def emit_def enter_phase_def onPhaseChange_def
        notifyStateUpdate_def addToHistory_def log_thought_def set_iteration_count_def
        apply_fixes_events(1) apply_fixes_quiet apply_fixes_isRunning apply_fixes_config
      split: prod.splits sum.splits option.splits)


lemma patch_attempt_step: "inner_step quiet st (snd (patch_attempt e st))"
proof -
  let ?st2 = "onLog (createLog ''PATCHER''
       (''Healing attempt '' @ show_int (iteration_count (projectState st) + 1) @ ''/''
        @ show_int (max_iterations (projectState st)) @ ''...'') L_info)
       (set_iteration_count (iteration_count (projectState st) + 1) st)"
  have p: "patch_attempt e st = executePatchingPhase e ?st2"
    by (simp add: patch_attempt_def Let_def set_iteration_count_def)
  have "inner_step quiet st ?st2"
    by (simp add: inner_step_def emits_def onLog_def emit_def set_iteration_count_def quiet_simps)
  from inner_step_trans[OF this executePatchingPhase_step[of ?st2 e]] p show ?thesis by simp
qed

lemma push_terminal_log_frame:
  "events (push_terminal_log e r st) = events st"
  "isRunning (push_terminal_log e r st) = isRunning st"
  "config (push_terminal_log e r st) = config st"
  by (simp_all add: push_terminal_log_def new_date_def)

lemma inner_step_onLog: "P (OnLog l) \<Longrightarrow> inner_step P st (onLog l st)"
  by (simp add: inner_step_def emits_def onLog_def emit_def)

lemma inner_step_push: "inner_step P st (push_terminal_log e r st)"
  by (simp add: inner_step_def emits_def push_terminal_log_frame)

lemma inner_step_then_onLog:
  "inner_step P st st' \<Longrightarrow> P (OnLog l) \<Longrightarrow> inner_step P st (onLog l st')"
  by (rule inner_step_trans[OF _ inner_step_onLog])

lemma inner_step_then_push:
  "inner_step P st st' \<Longrightarrow> inner_step P st (push_terminal_log e r st')"
  by (rule inner_step_trans[OF _ inner_step_push])

lemmas step_intros =
  inner_step_refl inner_step_then_onLog inner_step_then_push

lemma healing_loop_step: "inner_step quiet st (snd (healing_loop e result st))"
proof (induction e result st rule: healing_loop.induct)
  case (1 e result st)
  show ?case
  proof (cases "iteration_count (projectState st) < max_iterations (projectState st)
                \<and> \<not> cr_success result")
    case False
    then have "snd (healing_loop e result st)
        = (if iteration_count (projectState st) \<ge> max_iterations (projectState st) then
             onLog (createLog ''SYSTEM''
                      ''The system encountered persistent errors. Please review the logs.''
                      L_error)
               (onLog max_iterations_log st)
           else st)"
      by (subst healing_loop.simps) simp
    then show ?thesis
      by (auto intro!: step_intros simp: quiet_simps)
  next
    case True
    obtain r st1 where pa: "patch_attempt e st = (r, st1)" by (cases "patch_attempt e st")
    have s1: "inner_step quiet st st1" using patch_attempt_step[of st e] pa by simp
    show ?thesis
    proof (cases r)
      case (Inl err)
      then have "snd (healing_loop e result st) = st1"
        using True pa by (subst healing_loop.simps) simp
      with s1 show ?thesis by simp
    next
      case (Inr u)
      let ?new = "validateCode (projectState st1)"
      let ?st2 = "push_terminal_log e ?new st1"
      have s2: "inner_step quiet st ?st2"
        using s1 by (rule inner_step_then_push)
      show ?thesis
      proof (cases "cr_success ?new")
        case True
        then have "snd (healing_loop e result st)
            = onLog (createLog ''PATCHER'' ''Self-healing successful! Build passed.'' L_success) ?st2"
          using \<open>iteration_count (projectState st) < max_iterations (projectState st)
                \<and> \<not> cr_success result\<close> pa Inr
          by (subst healing_loop.simps) (simp add: Let_def)
        with s2 show ?thesis
          by (auto intro!: step_intros simp: quiet_simps)
      next
        case False
        let ?st3 = "if cr_stderr ?new = cr_stderr result then
                      onLog (same_error_log (iteration_count (projectState ?st2))) ?st2
                    else ?st2"
        have eq: "healing_loop e result st = healing_loop e result ?st3"
          using True pa Inr False by (subst healing_loop.simps) (simp add: Let_def)
        have s3: "inner_step quiet st ?st3"
          using s2 by (auto intro!: step_intros simp: quiet_simps)
        have "inner_step quiet ?st3 (snd (healing_loop e result ?st3))"
          using "1.IH"[OF True pa[symmetric] Inr refl refl False] .
        with s3 eq show ?thesis by (auto intro: inner_step_trans)
      qed
    qed
  qed
qed

lemma executeCompilationAndHealing_step:
  "inner_step quiet st (snd (executeCompilationAndHealing e st))"
proof -
  let ?st1 = "onLog (createLog ''SYSTEM'' ''Starting compilation validation...'' L_system) st"
  let ?res = "validateCode (projectState ?st1)"
  let ?st2 = "push_terminal_log e ?res ?st1"
  let ?st3 = "onLog (createLog ''STDERR'' (cr_stderr ?res) L_error)
                (onLog (createLog ''SYSTEM''
                   ''Build errors detected. Activating Patcher agent...'' L_error) ?st2)"
  have s2: "inner_step quiet st ?st2"
    by (intro step_intros) (simp_all add: quiet_simps)
  have s3: "inner_step quiet st ?st3"
    using s2 by (intro step_intros) (simp_all add: quiet_simps)
  have s4: "inner_step quiet st (snd (healing_loop e ?res ?st3))"
    using s3 healing_loop_step by (rule inner_step_trans)
  have "snd (executeCompilationAndHealing e st) = st
      \<or> snd (executeCompilationAndHealing e st)
          = onLog (createLog ''SYSTEM'' (cr_stdout ?res) L_info)
              (onLog (createLog ''SYSTEM'' ''Compilation successful!'' L_success) ?st2)
      \<or> snd (executeCompilationAndHealing e st)
          = onLog (createLog ''PATCHER''
                     ''Fatal error detected. Human intervention required.'' L_error) ?st3
      \<or> snd (executeCompilationAndHealing e st) = snd (healing_loop e ?res ?st3)"
    by (simp add: executeCompilationAndHealing_def Let_def)
  then show ?thesis
    using s2 s3 s4
    by (auto intro!: step_intros simp: quiet_simps)
qed

lemma and_then_step:
  assumes "\<And>s. inner_step P s (snd (f s))" and "\<And>s. inner_step P s (snd (g s))"
  shows "inner_step P st (snd (and_then f g st))"
proof (cases "f st")
  case (Pair r st1)
  have 1: "inner_step P st st1" using assms(1)[of st] Pair by simp
  show ?thesis
  proof (cases r)
    case (Inl err)
    with Pair 1 show ?thesis by (simp add: and_then_def)
  next
    case (Inr u)
    with Pair have "snd (and_then f g st) = snd (g st1)" by (simp add: and_then_def)
    with 1 assms(2)[of st1] show ?thesis by (auto intro: inner_step_trans)
  qed
qed

lemma and_then_counts:
  assumes "\<And>s. same_counts s (snd (f s))" and "\<And>s. same_counts s (snd (g s))"
  shows "same_counts st (snd (and_then f g st))"
proof (cases "f st")
  case (Pair r st1)
  have 1: "same_counts st st1" using assms(1)[of st] Pair by simp
  show ?thesis
  proof (cases r)
    case (Inl err)
    with Pair 1 show ?thesis by (simp add: and_then_def)
  next
    case (Inr u)
    with Pair have "snd (and_then f g st) = snd (g st1)" by (simp add: and_then_def)
    with 1 assms(2)[of st1] show ?thesis by (auto intro: same_counts_trans)
  qed
qed

lemma generate_step:
  "inner_step gen_event st (snd (generate e st))" "same_counts st (snd (generate e st))"
  unfolding generate_def
  by (intro and_then_step and_then_counts
        executePlanningPhase_step[THEN conjunct1] executeDesignPhase_step[THEN conjunct1]
        executeArchitecturePhase_step[THEN conjunct1] executeCodingPhase_step[THEN conjunct1]
        executePlanningPhase_step[THEN conjunct2] executeDesignPhase_step[THEN conjunct2]
        executeArchitecturePhase_step[THEN conjunct2] executeCodingPhase_step[THEN conjunct2])+

lemma ready_step: "inner_step quiet st (snd (ready st))"
  by (simp add: ready_def inner_step_def emits_def onLog_def emit_def enter_phase_def
        onPhaseChange_def quiet_simps)

lemma runAIWorkflow_step: "inner_step quiet st (snd (runAIWorkflow e p st))"
proof -
  let ?st2 = "onLog (createLog ''SYSTEM'' (''User Intent: '' @ dquote @ p @ dquote) L_info)
               (onLog (createLog ''SYSTEM''
                  ''Initializing Agentic Studio Pro - Closed-Loop Architecture'' L_system) st)"
  have 1: "inner_step quiet st ?st2"
    by (intro step_intros) (simp_all add: quiet_simps)
  have g: "\<And>s. inner_step quiet s (snd (generate e s))"
    using generate_step(1) gen_event_quiet by (rule inner_step_mono)
  have 2: "inner_step quiet ?st2
             (snd (and_then (generate e) (and_then (executeCompilationAndHealing e) ready) ?st2))"
    by (intro and_then_step g executeCompilationAndHealing_step ready_step)
  have "runAIWorkflow e p st
      = and_then (generate e) (and_then (executeCompilationAndHealing e) ready) ?st2"
    by (simp add: runAIWorkflow_def Let_def)
  with inner_step_trans[OF 1 2] show ?thesis by simp
qed

lemma runSimulation_from_step: "inner_step quiet st (runSimulation_from steps st)"
proof (induction steps arbitrary: st)
  case Nil
  show ?case by (simp add: inner_step_refl)
next
  case (Cons step steps)
  let ?st1 = "onLog (step_log step)
               (onPhaseChange (step_phase step)
                 (st\<lparr>timeouts := timeouts st @ [step_delay step],
                     currentPhase := step_phase step\<rparr>))"
  have "inner_step quiet st ?st1"
    by (simp add: inner_step_def emits_def onLog_def onPhaseChange_def emit_def quiet_simps)
  from inner_step_trans[OF this Cons.IH[of ?st1]] show ?case
    by (simp add: inner_step_refl)
qed

lemma runSimulation_step: "inner_step quiet st (snd (runSimulation e st))"
  by (simp add: runSimulation_def runSimulation_from_step)

lemma runSimulation_returns: "fst (runSimulation e st) = Inr ()"
  by (simp add: runSimulation_def)


text \<open>The \<open>try\<close> block of \<open>start\<close> up to the call of \<open>onComplete\<close>.\<close>

definition dispatch :: "env \<Rightarrow> string \<Rightarrow> orchestrator \<Rightarrow> unit outcome" where
  "dispatch e userPrompt st1 =
     (case determineMode e st1 of
        Inl err \<Rightarrow> (Inl err, st1)
      | Inr Simulation \<Rightarrow> runSimulation e st1
      | Inr AI \<Rightarrow> runAIWorkflow e userPrompt st1
      | Inr Hybrid \<Rightarrow>
          (case runAIWorkflow e userPrompt st1 of
             (Inl err, st') \<Rightarrow>
               runSimulation e
                 (onLog (createLog ''SYSTEM''
                    ''AI unavailable, running in demo mode...'' L_info) st')
           | (Inr u, st') \<Rightarrow> (Inr u, st')))"

definition begin_run :: "string \<Rightarrow> orchestrator \<Rightarrow> orchestrator" where
  "begin_run userPrompt st =
     st\<lparr>isRunning := True, currentPhase := PLANNING,
        projectState := (projectState st)\<lparr>user_prompt := userPrompt, status := PLANNING\<rparr>\<rparr>"

lemma start_dispatch:
  "\<not> isRunning st \<Longrightarrow>
     start e p st =
       (Inr (),
        (case fst (dispatch e p (begin_run p st)) of
           Inr u \<Rightarrow>
             (case onComplete_raises (config (snd (dispatch e p (begin_run p st)))) of
                None \<Rightarrow> emit OnComplete (snd (dispatch e p (begin_run p st)))
              | Some x \<Rightarrow> emit (OnError x) (emit OnComplete (snd (dispatch e p (begin_run p st)))))
         | Inl err \<Rightarrow> emit (OnError err) (snd (dispatch e p (begin_run p st))))
        \<lparr>isRunning := False\<rparr>)"
  unfolding start_def dispatch_def begin_run_def Let_def case_prod_beta by simp

lemma dispatch_step: "inner_step quiet st (snd (dispatch e p st))"
proof (cases "determineMode e st")
  case (Inl err)
  then show ?thesis by (simp add: dispatch_def inner_step_refl)
next
  case (Inr m)
  show ?thesis
  proof (cases m)
    case Simulation
    with Inr show ?thesis by (simp add: dispatch_def runSimulation_step)
  next
    case AI
    with Inr show ?thesis by (simp add: dispatch_def runAIWorkflow_step)
  next
    case Hybrid
    obtain r st' where w: "runAIWorkflow e p st = (r, st')" by (cases "runAIWorkflow e p st")
    have 1: "inner_step quiet st st'" using runAIWorkflow_step[of st e p] w by simp
    show ?thesis
    proof (cases r)
      case (Inl err)
      let ?st2 = "onLog (createLog ''SYSTEM'' ''AI unavailable, running in demo mode...'' L_info) st'"
      have "inner_step quiet st ?st2" using 1 by (intro step_intros) (simp_all add: quiet_simps)
      from inner_step_trans[OF this runSimulation_step[of ?st2 e]] Inr Hybrid w Inl
      show ?thesis by (simp add: dispatch_def)
    next
      case (Inr u)
      with \<open>determineMode e st = Inr m\<close> Hybrid w 1 show ?thesis by (simp add: dispatch_def)
    qed
  qed
qed

text \<open>
  The terminal callbacks of \<open>start\<close>. A call of \<open>start\<close> on an orchestrator that is running
  raises before anything else happens and calls no callback: no run is started. Every
  other call of \<open>start\<close> is a run: its promise is fulfilled, \<open>isRunning\<close> is false at its end, and
  the callback calls it adds are a list of calls none of which is \<open>onComplete\<close> or \<open>onError\<close>,
  followed by the terminal calls. When the consumer's \<open>onComplete\<close> returns, there is exactly
  one terminal call, \<open>onComplete\<close> or \<open>onError\<close>. When it raises a value \<open>x\<close>, a failed workflow
  still ends with the one call of \<open>onError\<close>, but a workflow that succeeds ends with two
  terminal calls: \<open>onComplete\<close> and then \<open>onError\<close> with \<open>x\<close>.
\<close>

lemma start_terminal_callbacks:
  "(isRunning st \<longrightarrow> start e p st = (Inl (Error ''Workflow already running''), st))
   \<and> (\<not> isRunning st \<longrightarrow>
        fst (start e p st) = Inr () \<and> \<not> isRunning (snd (start e p st))
        \<and> (\<exists>es ts. events (snd (start e p st)) = events st @ es @ ts
                  \<and> list_all quiet es
                  \<and> (case onComplete_raises (config st) of
                        None \<Rightarrow> ts = [OnComplete] \<or> (\<exists>err. ts = [OnError err])
                      | Some x \<Rightarrow>
                          ts = [OnComplete, OnError x] \<or> (\<exists>err. ts = [OnError err]))))"
proof (intro conjI impI)
  assume "isRunning st"
  then show "start e p st = (Inl (Error ''Workflow already running''), st)"
    by (simp add: start_def)
next
  assume n: "\<not> isRunning st"
  note s = start_dispatch[OF n, of e p]
  show "fst (start e p st) = Inr ()" by (simp add: s)
  show "\<not> isRunning (snd (start e p st))" by (simp add: s)
  from dispatch_step[of "begin_run p st" e p] obtain es where
    es: "events (snd (dispatch e p (begin_run p st))) = events st @ es" "list_all quiet es"
    and c: "config (snd (dispatch e p (begin_run p st))) = config st"
    by (auto simp: inner_step_def emits_def begin_run_def)
  show "\<exists>es ts. events (snd (start e p st)) = events st @ es @ ts
                  \<and> list_all quiet es
                  \<and> (case onComplete_raises (config st) of
                        None \<Rightarrow> ts = [OnComplete] \<or> (\<exists>err. ts = [OnError err])
                      | Some x \<Rightarrow>
                          ts = [OnComplete, OnError x] \<or> (\<exists>err. ts = [OnError err]))"
  proof (cases "fst (dispatch e p (begin_run p st))")
    case (Inl err)
    then have "events (snd (start e p st)) = events st @ es @ [OnError err]"
      using es(1) by (simp add: s emit_def)
    with es(2) show ?thesis by (auto split: option.splits)
  next
    case (Inr u)
    show ?thesis
    proof (cases "onComplete_raises (config st)")
      case None
      then have "events (snd (start e p st)) = events st @ es @ [OnComplete]"
        using es(1) c Inr by (simp add: s emit_def)
      with es(2) None show ?thesis by auto
    next
      case (Some x)
      then have "events (snd (start e p st)) = events st @ es @ [OnComplete, OnError x]"
        using es(1) c Inr by (simp add: s emit_def)
      with es(2) Some show ?thesis by auto
    qed
  qed
qed

section \<open>The iteration counter\<close>

text \<open>
  \<open>count_ok\<close>: the history of \<open>iteration_count\<close> ends with its present value, never goes
  down, and every value in it lies between 0 and \<open>max_iterations\<close>. \<open>counts_step st st'\<close>: from
  \<open>st\<close> to \<open>st'\<close> \<open>max_iterations\<close> stays, the history only grows, and \<open>count_ok\<close> is kept.
\<close>

definition count_ok :: "orchestrator \<Rightarrow> bool" where
  "count_ok st =
     (iteration_history st \<noteq> []
      \<and> last (iteration_history st) = iteration_count (projectState st)
      \<and> sorted (iteration_history st)
      \<and> (\<forall>v \<in> set (iteration_history st). 0 \<le> v \<and> v \<le> max_iterations (projectState st)))"

definition counts_step :: "orchestrator \<Rightarrow> orchestrator \<Rightarrow> bool" where
  "counts_step st st' =
     (max_iterations (projectState st') = max_iterations (projectState st)
      \<and> prefix (iteration_history st) (iteration_history st')
      \<and> (count_ok st \<longrightarrow> count_ok st'))"

lemma counts_step_refl: "counts_step st st"
  by (simp add: counts_step_def)

lemma counts_step_trans: "counts_step a b \<Longrightarrow> counts_step b c \<Longrightarrow> counts_step a c"
  by (auto simp: counts_step_def)

lemma same_counts_step: "same_counts st st' \<Longrightarrow> counts_step st st'"
  by (simp add: same_counts_def counts_step_def count_ok_def)

lemma counts_then_onLog: "counts_step st st' \<Longrightarrow> counts_step st (onLog l st')"
  by (rule counts_step_trans[OF _ same_counts_step])
     (simp_all add: same_counts_def onLog_def emit_def)

lemma counts_then_push: "counts_step st st' \<Longrightarrow> counts_step st (push_terminal_log e r st')"
  by (rule counts_step_trans[OF _ same_counts_step])
     (simp_all add: same_counts_def push_terminal_log_counts)

lemmas counts_intros = counts_step_refl counts_then_onLog counts_then_push

text \<open>One Patch attempt writes the counter once, raised by one, and a second time only
  to set it to \<open>max_iterations\<close>.\<close>

lemma patch_attempt_history:
  assumes "patch_attempt e st = (r, st')"
  shows "(iteration_history st'
            = iteration_history st @ [iteration_count (projectState st) + 1]
          \<and> iteration_count (projectState st') = iteration_count (projectState st) + 1)
       \<or> (iteration_history st'
            = iteration_history st @ [iteration_count (projectState st) + 1,
                                      max_iterations (projectState st)]
          \<and> iteration_count (projectState st') = max_iterations (projectState st))"
proof -
  let ?st2 = "onLog (createLog ''PATCHER''
       (''Healing attempt '' @ show_int (iteration_count (projectState st) + 1) @ ''/''
        @ show_int (max_iterations (projectState st)) @ ''...'') L_info)
       (set_iteration_count (iteration_count (projectState st) + 1) st)"
  have p: "executePatchingPhase e ?st2 = (r, st')"
    using assms by (simp add: patch_attempt_def Let_def set_iteration_count_def)
  have st2: "max_iterations (projectState ?st2) = max_iterations (projectState st)"
    "iteration_count (projectState ?st2) = iteration_count (projectState st) + 1"
    "iteration_history ?st2 = iteration_history st @ [iteration_count (projectState st) + 1]"
    by (simp_all add: onLog_def emit_def set_iteration_count_def)
  from executePatchingPhase_counts(2)[OF p] st2 show ?thesis by auto
qed

lemma sorted_le_last:
  fixes x :: int
  shows "sorted h \<Longrightarrow> x \<in> set h \<Longrightarrow> x \<le> last h"
  by (induction h) auto

lemma sorted_snoc:
  fixes v :: int
  assumes "sorted h" and "h \<noteq> []" and "last h \<le> v"
  shows "sorted (h @ [v])"
proof -
  have "\<forall>x \<in> set h. x \<le> v"
  proof
    fix x assume "x \<in> set h"
    with assms(1) have "x \<le> last h" by (rule sorted_le_last)
    with assms(3) show "x \<le> v" by simp
  qed
  with assms(1) show ?thesis by (simp add: sorted_append)
qed

lemma patch_attempt_counts_step:
  assumes "patch_attempt e st = (r, st')"
    and "iteration_count (projectState st) < max_iterations (projectState st)"
  shows "counts_step st st'"
proof -
  let ?ic = "iteration_count (projectState st)" and ?mx = "max_iterations (projectState st)"
  note h = patch_attempt_history[OF assms(1)]
  have mx: "max_iterations (projectState st') = ?mx"
    using patch_attempt_counts(1)[OF assms(1)] .
  have pre: "prefix (iteration_history st) (iteration_history st')"
    using h by auto
  have ok: "count_ok st'" if c: "count_ok st"
  proof -
    from c have ne: "iteration_history st \<noteq> []" and l: "last (iteration_history st) = ?ic"
      and s: "sorted (iteration_history st)"
      and b: "\<forall>v \<in> set (iteration_history st). 0 \<le> v \<and> v \<le> ?mx"
      by (simp_all add: count_ok_def)
    from ne l b have ic0: "0 \<le> ?ic" by (metis last_in_set)
    have s1: "sorted (iteration_history st @ [?ic + 1])"
      using s ne by (rule sorted_snoc) (simp add: l)
    have "last (iteration_history st @ [?ic + 1]) \<le> ?mx" using assms(2) by simp
    then have s2: "sorted ((iteration_history st @ [?ic + 1]) @ [?mx])"
      using sorted_snoc[OF s1, of ?mx] by simp
    from h show ?thesis
    proof
      assume "iteration_history st' = iteration_history st @ [?ic + 1]
          \<and> iteration_count (projectState st') = ?ic + 1"
      then show ?thesis using s1 b ic0 assms(2) mx by (auto simp: count_ok_def)
    next
      assume "iteration_history st' = iteration_history st @ [?ic + 1, ?mx]
          \<and> iteration_count (projectState st') = ?mx"
      then show ?thesis using s2 b ic0 assms(2) mx by (auto simp: count_ok_def)
    qed
  qed
  show ?thesis using mx pre ok by (simp add: counts_step_def)
qed

lemma healing_loop_counts: "counts_step st (snd (healing_loop e result st))"
proof (induction e result st rule: healing_loop.induct)
  case (1 e result st)
  show ?case
  proof (cases "iteration_count (projectState st) < max_iterations (projectState st)
                \<and> \<not> cr_success result")
    case False
    then have "snd (healing_loop e result st)
        = (if iteration_count (projectState st) \<ge> max_iterations (projectState st) then
             onLog (createLog ''SYSTEM''
                      ''The system encountered persistent errors. Please review the logs.''
                      L_error)
               (onLog max_iterations_log st)
           else st)"
      by (subst healing_loop.simps) simp
    then show ?thesis by (auto intro!: counts_intros)
  next
    case True
    obtain r st1 where pa: "patch_attempt e st = (r, st1)" by (cases "patch_attempt e st")
    have s1: "counts_step st st1" using patch_attempt_counts_step[OF pa] True by simp
    show ?thesis
    proof (cases r)
      case (Inl err)
      then have "snd (healing_loop e result st) = st1"
        using True pa by (subst healing_loop.simps) simp
      with s1 show ?thesis by simp
    next
      case (Inr u)
      let ?new = "validateCode (projectState st1)"
      let ?st2 = "push_terminal_log e ?new st1"
      have s2: "counts_step st ?st2" using s1 by (rule counts_then_push)
      show ?thesis
      proof (cases "cr_success ?new")
        case True
        then have "snd (healing_loop e result st)
            = onLog (createLog ''PATCHER'' ''Self-healing successful! Build passed.'' L_success) ?st2"
          using \<open>iteration_count (projectState st) < max_iterations (projectState st)
                \<and> \<not> cr_success result\<close> pa Inr
          by (subst healing_loop.simps) (simp add: Let_def)
        with s2 show ?thesis by (auto intro!: counts_intros)
      next
        case False
        let ?st3 = "if cr_stderr ?new = cr_stderr result then
                      onLog (same_error_log (iteration_count (projectState ?st2))) ?st2
                    else ?st2"
        have eq: "healing_loop e result st = healing_loop e result ?st3"
          using True pa Inr False by (subst healing_loop.simps) (simp add: Let_def)
        have s3: "counts_step st ?st3" using s2 by (auto intro!: counts_intros)
        have "counts_step ?st3 (snd (healing_loop e result ?st3))"
          using "1.IH"[OF True pa[symmetric] Inr refl refl False] .
        with s3 eq show ?thesis by (auto intro: counts_step_trans)
      qed
    qed
  qed
qed

lemma executeCompilationAndHealing_counts:
  "counts_step st (snd (executeCompilationAndHealing e st))"
proof -
  let ?st1 = "onLog (createLog ''SYSTEM'' ''Starting compilation validation...'' L_system) st"
  let ?res = "validateCode (projectState ?st1)"
  let ?st2 = "push_terminal_log e ?res ?st1"
  let ?st3 = "onLog (createLog ''STDERR'' (cr_stderr ?res) L_error)
                (onLog (createLog ''SYSTEM''
                   ''Build errors detected. Activating Patcher agent...'' L_error) ?st2)"
  have s2: "counts_step st ?st2" by (intro counts_intros)
  have s3: "counts_step st ?st3" using s2 by (intro counts_intros)
  have s4: "counts_step st (snd (healing_loop e ?res ?st3))"
    using s3 healing_loop_counts by (rule counts_step_trans)
  have "snd (executeCompilationAndHealing e st) = st
      \<or> snd (executeCompilationAndHealing e st)
          = onLog (createLog ''SYSTEM'' (cr_stdout ?res) L_info)
              (onLog (createLog ''SYSTEM'' ''Compilation successful!'' L_success) ?st2)
      \<or> snd (executeCompilationAndHealing e st)
          = onLog (createLog ''PATCHER''
                     ''Fatal error detected. Human intervention required.'' L_error) ?st3
      \<or> snd (executeCompilationAndHealing e st) = snd (healing_loop e ?res ?st3)"
    by (simp add: executeCompilationAndHealing_def Let_def)
  then show ?thesis
    using s2 s3 s4 by (auto intro!: counts_intros)
qed

lemma and_then_counts_step:
  assumes "\<And>s. counts_step s (snd (f s))" and "\<And>s. counts_step s (snd (g s))"
  shows "counts_step st (snd (and_then f g st))"
proof (cases "f st")
  case (Pair r st1)
  have 1: "counts_step st st1" using assms(1)[of st] Pair by simp
  show ?thesis
  proof (cases r)
    case (Inl err)
    with Pair 1 show ?thesis by (simp add: and_then_def)
  next
    case (Inr u)
    with Pair have "snd (and_then f g st) = snd (g st1)" by (simp add: and_then_def)
    with 1 assms(2)[of st1] show ?thesis by (auto intro: counts_step_trans)
  qed
qed

lemma runAIWorkflow_counts: "counts_step st (snd (runAIWorkflow e p st))"
proof -
  let ?st2 = "onLog (createLog ''SYSTEM'' (''User Intent: '' @ dquote @ p @ dquote) L_info)
               (onLog (createLog ''SYSTEM''
                  ''Initializing Agentic Studio Pro - Closed-Loop Architecture'' L_system) st)"
  have 1: "counts_step st ?st2" by (intro counts_intros)
  have g: "\<And>s. counts_step s (snd (generate e s))"
    using generate_step(2) by (rule same_counts_step)
  have r: "\<And>s. counts_step s (snd (ready s))"
    by (rule same_counts_step)
       (simp add: ready_def same_counts_def onLog_def emit_def enter_phase_def onPhaseChange_def)
  have 2: "counts_step ?st2
             (snd (and_then (generate e) (and_then (executeCompilationAndHealing e) ready) ?st2))"
    by (intro and_then_counts_step g executeCompilationAndHealing_counts r)
  have "runAIWorkflow e p st
      = and_then (generate e) (and_then (executeCompilationAndHealing e) ready) ?st2"
    by (simp add: runAIWorkflow_def Let_def)
  with counts_step_trans[OF 1 2] show ?thesis by simp
qed

lemma runSimulation_from_counts: "same_counts st (runSimulation_from steps st)"
proof (induction steps arbitrary: st)
  case Nil
  show ?case by (simp add: same_counts_refl)
next
  case (Cons step steps)
  let ?st1 = "onLog (step_log step)
               (onPhaseChange (step_phase step)
                 (st\<lparr>timeouts := timeouts st @ [step_delay step],
                     currentPhase := step_phase step\<rparr>))"
  have "same_counts st ?st1"
    by (simp add: same_counts_def onLog_def onPhaseChange_def emit_def)
  from same_counts_trans[OF this Cons.IH[of ?st1]] show ?case
    by (simp add: same_counts_refl)
qed

lemma runSimulation_counts: "counts_step st (snd (runSimulation e st))"
  by (simp add: runSimulation_def runSimulation_from_counts same_counts_step)

lemma dispatch_counts: "counts_step st (snd (dispatch e p st))"
proof (cases "determineMode e st")
  case (Inl err)
  then show ?thesis by (simp add: dispatch_def counts_step_refl)
next
  case (Inr m)
  show ?thesis
  proof (cases m)
    case Simulation
    with Inr show ?thesis by (simp add: dispatch_def runSimulation_counts)
  next
    case AI
    with Inr show ?thesis by (simp add: dispatch_def runAIWorkflow_counts)
  next
    case Hybrid
    obtain r st' where w: "runAIWorkflow e p st = (r, st')" by (cases "runAIWorkflow e p st")
    have 1: "counts_step st st'" using runAIWorkflow_counts[of st e p] w by simp
    show ?thesis
    proof (cases r)
      case (Inl err)
      let ?st2 = "onLog (createLog ''SYSTEM'' ''AI unavailable, running in demo mode...'' L_info) st'"
      have "counts_step st ?st2" using 1 by (intro counts_intros)
      from counts_step_trans[OF this runSimulation_counts[of ?st2 e]] Inr Hybrid w Inl
      show ?thesis by (simp add: dispatch_def)
    next
      case (Inr u)
      with \<open>determineMode e st = Inr m\<close> Hybrid w 1 show ?thesis by (simp add: dispatch_def)
    qed
  qed
qed

lemma start_counts: "counts_step st (snd (start e p st))"
proof (cases "isRunning st")
  case True
  then show ?thesis by (simp add: start_def counts_step_refl)
next
  case False
  have b: "counts_step st (begin_run p st)"
    by (rule same_counts_step) (simp add: same_counts_def begin_run_def)
  note d = counts_step_trans[OF b dispatch_counts[of "begin_run p st" e p]]
  have "same_counts (snd (dispatch e p (begin_run p st))) (snd (start e p st))"
    by (simp add: start_dispatch[OF False] same_counts_def emit_def
          split: sum.splits option.splits)
  from counts_step_trans[OF d same_counts_step[OF this]] show ?thesis .
qed

text \<open>
  The counter over the life of an orchestrator. The project state of a new orchestrator
  has \<open>iteration_count\<close> 0, and the history of the counter starts with that 0. Every call
  of \<open>start\<close> keeps \<open>count_ok\<close>, only adds to the history and leaves \<open>max_iterations\<close> as it is: so after every write the counter lies
  between 0 and \<open>max_iterations\<close>, and no write decreases it. Each Patch attempt (entered
  only while the counter is below \<open>max_iterations\<close>) increments the counter exactly once, by
  one; the only other write it can make is the one that sets the counter to
  \<open>max_iterations\<close> when the Patcher asks for human help.
\<close>

lemma iteration_count_bounded_monotone:
  "iteration_count (projectState (new_orchestrator cfg)) = 0
   \<and> iteration_history (new_orchestrator cfg) = [0]
   \<and> count_ok (new_orchestrator cfg)
   \<and> (count_ok st \<longrightarrow>
        count_ok (snd (start e p st))
        \<and> prefix (iteration_history st) (iteration_history (snd (start e p st)))
        \<and> max_iterations (projectState (snd (start e p st))) = max_iterations (projectState st))
   \<and> (iteration_count (projectState st) < max_iterations (projectState st) \<longrightarrow>
        (iteration_history (snd (patch_attempt e st))
           = iteration_history st @ [iteration_count (projectState st) + 1]
         \<and> iteration_count (projectState (snd (patch_attempt e st)))
           = iteration_count (projectState st) + 1)
        \<or> (iteration_history (snd (patch_attempt e st))
           = iteration_history st @ [iteration_count (projectState st) + 1,
                                     max_iterations (projectState st)]
         \<and> iteration_count (projectState (snd (patch_attempt e st)))
           = max_iterations (projectState st)))"
proof (intro conjI impI)
  show "iteration_count (projectState (new_orchestrator cfg)) = 0"
    "iteration_history (new_orchestrator cfg) = [0]"
    "count_ok (new_orchestrator cfg)"
    by (simp_all add: new_orchestrator_def createInitialState_def count_ok_def)
next
  assume "count_ok st"
  with start_counts[of st e p]
  show "count_ok (snd (start e p st))"
    "prefix (iteration_history st) (iteration_history (snd (start e p st)))"
    "max_iterations (projectState (snd (start e p st))) = max_iterations (projectState st)"
    by (simp_all add: counts_step_def)
next
  assume "iteration_count (projectState st) < max_iterations (projectState st)"
  show "(iteration_history (snd (patch_attempt e st))
           = iteration_history st @ [iteration_count (projectState st) + 1]
         \<and> iteration_count (projectState (snd (patch_attempt e st)))
           = iteration_count (projectState st) + 1)
        \<or> (iteration_history (snd (patch_attempt e st))
           = iteration_history st @ [iteration_count (projectState st) + 1,
                                     max_iterations (projectState st)]
         \<and> iteration_count (projectState (snd (patch_attempt e st)))
           = max_iterations (projectState st))"
    using patch_attempt_history[of e st "fst (patch_attempt e st)" "snd (patch_attempt e st)"]
    by simp
qed

text \<open>A Patcher that asks for human help when the service answers \<open>h\<close>.\<close>

definition help_script :: "string \<Rightarrow> payload" where
  "help_script t = (if t = ''h'' then no_payload\<lparr>request_human_help := True\<rparr> else no_payload)"

lemma iteration_count_bounded_monotone_examples:
  "count_ok (snd (start ((scripted_env [] help_script)\<lparr>apiKey := None\<rparr>) ''app''
       (new_orchestrator ai_config)))
   \<and> iteration_history (snd (start ((scripted_env [] help_script)\<lparr>apiKey := None\<rparr>) ''app''
       (new_orchestrator ai_config))) = [0]
   \<and> iteration_history (snd (patch_attempt (scripted_env ''h'' help_script)
       ((new_orchestrator ai_config)\<lparr>isRunning := True\<rparr>))) = [0, 1, 3]
   \<and> iteration_history (snd (patch_attempt (scripted_env ''x'' help_script)
       ((new_orchestrator ai_config)\<lparr>isRunning := True\<rparr>))) = [0, 1]"
proof -
  let ?e0 = "(scripted_env [] help_script)\<lparr>apiKey := None\<rparr>"
  let ?s = "new_orchestrator ai_config"
  let ?r = "(new_orchestrator ai_config)\<lparr>isRunning := True\<rparr>"
  note t = iteration_count_bounded_monotone[of ai_config ?s ?e0 "''app''"]
  from t have ok: "count_ok ?s" by blast
  with t have 1: "count_ok (snd (start ?e0 ''app'' ?s))" by blast
  have 2: "iteration_history (snd (start ?e0 ''app'' ?s)) = [0]"
    by (simp add: start_def determineMode_def isAvailable_def scripted_env_def ai_config_def
          new_orchestrator_def emit_def Let_def)
  have lt: "iteration_count (projectState ?r) < max_iterations (projectState ?r)"
    "iteration_history ?r = [0]" "iteration_count (projectState ?r) = 0"
    "max_iterations (projectState ?r) = 3"
    by (simp_all add: new_orchestrator_def createInitialState_def)
  have 3: "iteration_history (snd (patch_attempt (scripted_env ''h'' help_script) ?r)) = [0, 1, 3]"
    by code_simp
  have 4: "iteration_history (snd (patch_attempt (scripted_env ''x'' help_script) ?r)) = [0, 1]"
    using iteration_count_bounded_monotone[of ai_config ?r "scripted_env ''x'' help_script"] lt
    by code_simp
  from 1 2 3 4 show ?thesis by blast
qed

section \<open>A fatal validation\<close>







section \<open>A run that reaches the iteration cap\<close>

text \<open>
  The Coder returns one file, \<open>a.ts\<close>, with two placeholder lines. The Patcher's first
  answer replaces the second placeholder, its later answers hold no fix. So the first
  validation reports two errors and each of the three validations after a Patch attempt
  reports the same single error.
\<close>

definition todo_script :: "string \<Rightarrow> payload" where
  "todo_script t =
     (if t = ''c'' then
        no_payload\<lparr>p_files :=
          Some [\<lparr>gf_path = ''a.ts'',
                 gf_content = Some (''// TODO: x'' @ nl @ ''// TODO: y'')\<rparr>]\<rparr>
      else if t = ''f'' then
        no_payload\<lparr>p_fixes :=
          Some [\<lparr>fix_file = ''a.ts'', fix_line = 2, fix_before = ''// TODO: y'',
                 fix_after = ''y();''\<rparr>]\<rparr>
      else no_payload)"

text \<open>The error lines the Patcher logs: the stagnation signal and the message of the
  iteration cap are among them.\<close>

definition is_patcher_error :: "event \<Rightarrow> bool" where
  "is_patcher_error ev =
     (case ev of OnLog l \<Rightarrow> agent l = ''PATCHER'' \<and> ltype l = L_error | _ \<Rightarrow> False)"

definition todo_run :: "unit outcome" where
  "todo_run = start (scripted_env ''pdacf'' todo_script) ''app'' (new_orchestrator ai_config)"

text \<open>What the theorems below read from a finished run.\<close>

definition run_summary ::
  "unit outcome \<Rightarrow>
     (thrown + unit) \<times> event list \<times> AgentPhase \<times> int list \<times> int list \<times> bool list
       \<times> event list \<times> event list \<times> bool" where
  "run_summary r =
     (fst r,
      filter is_terminal (events (snd r)),
      status (projectState (snd r)),
      iteration_history (snd r),
      map tl_exit_code (terminal_logs (projectState (snd r))),
      map (\<lambda>l. tl_stderr l = tl_stderr (terminal_logs (projectState (snd r)) ! 1))
        (terminal_logs (projectState (snd r))),
      filter is_patcher_error (events (snd r)),
      rev (take 3 (rev (events (snd r)))),
      cr_success (validateCode (projectState (snd r))))"

lemma todo_run_summary:
  "run_summary todo_run =
     (Inr (), [OnComplete], READY, [0, 1, 2, 3], [1, 1, 1, 1], [False, True, True, True],
      [OnLog max_iterations_log],
      [OnPhaseChange READY,
       OnLog (createLog ''SYSTEM'' ''Application ready! All agents completed successfully.''
                L_success),
       OnComplete],
      False)"
  by code_simp

text \<open>
  C2, the code at an input where it departs from the claim. In the run above every
  validation fails (exit code 1 four times), the counter goes from 0 to 3 and the loop ends
  at the cap with the log line \<open>Max healing iterations reached\<close>. \<open>executeCompilationAndHealing\<close>
  then returns normally, so \<open>runAIWorkflow\<close> goes on to its last step: the phase becomes
  \<open>READY\<close>, the log says that the application is ready and that all agents completed
  successfully, and the only terminal callback is \<open>onComplete\<close>, which takes no argument:
  the outcome is the one of a successful run, with files that still fail validation.
\<close>

theorem max_iterations_run_completes:
  "fst todo_run = Inr ()
   \<and> iteration_history (snd todo_run) = [0, 1, 2, 3]
   \<and> map tl_exit_code (terminal_logs (projectState (snd todo_run))) = [1, 1, 1, 1]
   \<and> \<not> cr_success (validateCode (projectState (snd todo_run)))
   \<and> OnLog max_iterations_log \<in> set (events (snd todo_run))
   \<and> filter is_terminal (events (snd todo_run)) = [OnComplete]
   \<and> rev (take 3 (rev (events (snd todo_run))))
       = [OnPhaseChange READY,
          OnLog (createLog ''SYSTEM''
                   ''Application ready! All agents completed successfully.'' L_success),
          OnComplete]
   \<and> status (projectState (snd todo_run)) = READY"
proof -
  note s = todo_run_summary[unfolded run_summary_def prod.inject]
  have "OnLog max_iterations_log \<in> set (filter is_patcher_error (events (snd todo_run)))"
    using s by simp
  then have "OnLog max_iterations_log \<in> set (events (snd todo_run))" by simp
  with s show ?thesis by simp
qed

text \<open>
  C7, the code at an input where it departs from the claim. In the run above the second
  and the third Patch attempt are each followed by a validation whose error text is that
  of the attempt before (the entries 1, 2 and 3 of \<open>terminal_logs\<close> have the same \<open>stderr\<close>,
  entry 0, the first validation, has another), and yet no stagnation signal is logged for
  any attempt: the code compares with \<open>result.stderr\<close>, the text of the first validation,
  since \<open>result\<close> is never assigned again. The rest of the claim holds here: the three
  attempts are counted and \<open>start\<close> returns without raising.
\<close>

theorem stagnation_not_signalled:
  "fst todo_run = Inr ()
   \<and> iteration_history (snd todo_run) = [0, 1, 2, 3]
   \<and> map tl_exit_code (terminal_logs (projectState (snd todo_run))) = [1, 1, 1, 1]
   \<and> map (\<lambda>l. tl_stderr l = tl_stderr (terminal_logs (projectState (snd todo_run)) ! 1))
         (terminal_logs (projectState (snd todo_run))) = [False, True, True, True]
   \<and> (\<forall>n. OnLog (same_error_log n) \<notin> set (events (snd todo_run)))"
proof -
  note s = todo_run_summary[unfolded run_summary_def prod.inject]
  have "OnLog (same_error_log n) \<notin> set (events (snd todo_run))" for n
  proof
    assume "OnLog (same_error_log n) \<in> set (events (snd todo_run))"
    moreover have "is_patcher_error (OnLog (same_error_log n))"
      by (simp add: is_patcher_error_def same_error_log_def createLog_def)
    ultimately have "OnLog (same_error_log n)
        \<in> set (filter is_patcher_error (events (snd todo_run)))"
      by simp
    then have "same_error_log n = max_iterations_log" using s by simp
    then show False by (simp add: same_error_log_def max_iterations_log_def createLog_def)
  qed
  with s show ?thesis by simp
qed

section \<open>A second run on the same orchestrator\<close>

text \<open>
  The Coder returns one file, \<open>a.ts\<close>, with a placeholder line, and the Patcher asks for
  human help. The service gives the same answers to a second run.
\<close>

definition help_todo_script :: "string \<Rightarrow> payload" where
  "help_todo_script t =
     (if t = ''c'' then
        no_payload\<lparr>p_files := Some [\<lparr>gf_path = ''a.ts'', gf_content = Some ''// TODO: x''\<rparr>]\<rparr>
      else if t = ''h'' then no_payload\<lparr>request_human_help := True\<rparr>
      else no_payload)"

definition first_run :: "unit outcome" where
  "first_run =
     start (scripted_env ''pdachpdach'' help_todo_script) ''app'' (new_orchestrator ai_config)"

definition second_run :: "unit outcome" where
  "second_run = start (scripted_env ''pdachpdach'' help_todo_script) ''app'' (snd first_run)"

text \<open>The phases a list of callback calls announces.\<close>

definition phase_changes :: "event list \<Rightarrow> AgentPhase list" where
  "phase_changes evs =
     concat (map (\<lambda>ev. case ev of OnPhaseChange ph \<Rightarrow> [ph] | _ \<Rightarrow> []) evs)"

text \<open>What the theorem below reads from a finished run and the run that follows it.\<close>

definition rerun_summary ::
  "orchestrator \<Rightarrow> unit outcome \<Rightarrow>
     int \<times> bool \<times> int list \<times> nat \<times> (thrown + unit) \<times> int \<times> int list \<times> nat
       \<times> AgentPhase list \<times> event list \<times> event list \<times> int list" where
  "rerun_summary st r =
     (iteration_count (projectState st), isRunning st, iteration_history st, requests st,
      fst r, iteration_count (projectState (snd r)), iteration_history (snd r),
      requests (snd r),
      phase_changes (new_events st (snd r)),
      filter is_patcher_error (new_events st (snd r)),
      filter is_terminal (new_events st (snd r)),
      map tl_exit_code (terminal_logs (projectState (snd r))))"

definition reruns :: "env \<Rightarrow> string \<Rightarrow> orchestrator \<Rightarrow>
     int \<times> bool \<times> int list \<times> nat \<times> (thrown + unit) \<times> int \<times> int list \<times> nat
       \<times> AgentPhase list \<times> event list \<times> event list \<times> int list" where
  "reruns e p st = rerun_summary st (start e p st)"

lemma second_run_summary:
  "reruns (scripted_env ''pdachpdach'' help_todo_script) ''app'' (snd first_run) =
     (3, False, [0, 1, 3], 5,
      Inr (), 3, [0, 1, 3], 9,
      [PLANNING, DESIGNING, ARCHITECTING, CODING, READY],
      [OnLog max_iterations_log],
      [OnComplete],
      [1, 1, 1])"
  by code_simp

text \<open>
  C1, the code at an input where it departs from the claim. \<open>start\<close> is called a second
  time on an orchestrator whose first run has ended (so \<open>isRunning\<close> is false and the call
  is accepted). The first run left \<open>iteration_count\<close> at 3: its one Patch attempt incremented
  the counter from 0 to 1, and the Patcher's request for human help then set it to
  \<open>max_iterations\<close>. The project state is created by the constructor alone, and \<open>start\<close> does
  not reset it: the second run starts with \<open>iteration_count\<close> 3, not 0. Its validation fails
  (the third exit code 1), and since the counter is at the cap already, the run makes no
  Patch attempt (no further request after the four of the generating phases, no Patching
  phase), logs that the iterations are used up and ends with \<open>onComplete\<close>. The counter
  holds no other value in the second run.
\<close>

theorem second_run_starts_at_cap:
  "iteration_count (projectState (snd first_run)) = 3
   \<and> \<not> isRunning (snd first_run)
   \<and> iteration_history (snd first_run) = [0, 1, 3]
   \<and> requests (snd first_run) = 5
   \<and> fst second_run = Inr ()
   \<and> iteration_count (projectState (snd second_run)) = 3
   \<and> iteration_history (snd second_run) = [0, 1, 3]
   \<and> requests (snd second_run) = 9
   \<and> phase_changes (new_events (snd first_run) (snd second_run))
       = [PLANNING, DESIGNING, ARCHITECTING, CODING, READY]
   \<and> filter is_patcher_error (new_events (snd first_run) (snd second_run))
       = [OnLog max_iterations_log]
   \<and> filter is_terminal (new_events (snd first_run) (snd second_run)) = [OnComplete]
   \<and> map tl_exit_code (terminal_logs (projectState (snd second_run))) = [1, 1, 1]"
  using second_run_summary
  unfolding reruns_def rerun_summary_def second_run_def prod.inject by blast

section \<open>A run whose \<open>onComplete\<close> raises\<close>

text \<open>The Coder returns one file without a fault; the consumer's \<open>onComplete\<close> raises an
  \<open>Error\<close>.\<close>

definition clean_script :: "string \<Rightarrow> payload" where
  "clean_script t =
     (if t = ''c'' then
        no_payload\<lparr>p_files := Some [\<lparr>gf_path = ''a.ts'', gf_content = Some ''const x = 1;''\<rparr>]\<rparr>
      else no_payload)"

definition raising_config :: AgentWorkflowConfig where
  "raising_config =
     \<lparr>mode = AI, has_onStateUpdate = False,
      onComplete_raises = Some (Error ''onComplete failed'')\<rparr>"

definition raising_run :: "unit outcome" where
  "raising_run =
     start (scripted_env ''pdac'' clean_script) ''app'' (new_orchestrator raising_config)"

text \<open>What the theorem below reads from the finished run.\<close>

definition end_summary ::
  "unit outcome \<Rightarrow>
     (thrown + unit) \<times> AgentPhase \<times> int list \<times> int list \<times> event list \<times> event list" where
  "end_summary r =
     (fst r,
      status (projectState (snd r)),
      map tl_exit_code (terminal_logs (projectState (snd r))),
      iteration_history (snd r),
      filter is_terminal (events (snd r)),
      rev (take 3 (rev (events (snd r)))))"

lemma raising_run_summary:
  "end_summary raising_run =
     (Inr (), READY, [0], [0],
      [OnComplete, OnError (Error ''onComplete failed'')],
      [OnLog (createLog ''SYSTEM'' ''Application ready! All agents completed successfully.''
                L_success),
       OnComplete,
       OnError (Error ''onComplete failed'')])"
  by code_simp

text \<open>
  C9, the code at an input where it departs from the claim. The workflow succeeds: the
  one validation passes (exit code 0), no Patch attempt is made and the phase becomes
  \<open>READY\<close>. \<open>start\<close> calls \<open>onComplete\<close>, which raises; the call stands inside the \<open>try\<close> block, so
  the \<open>catch\<close> clause calls \<open>onError\<close> with the raised value. The run has called both terminal
  callbacks, \<open>onComplete\<close> first and \<open>onError\<close> after it.
\<close>

theorem raising_onComplete_calls_onError:
  "fst raising_run = Inr ()
   \<and> status (projectState (snd raising_run)) = READY
   \<and> map tl_exit_code (terminal_logs (projectState (snd raising_run))) = [0]
   \<and> iteration_history (snd raising_run) = [0]
   \<and> filter is_terminal (events (snd raising_run))
       = [OnComplete, OnError (Error ''onComplete failed'')]
   \<and> rev (take 3 (rev (events (snd raising_run))))
       = [OnLog (createLog ''SYSTEM''
                   ''Application ready! All agents completed successfully.'' L_success),
          OnComplete,
          OnError (Error ''onComplete failed'')]"
  using raising_run_summary unfolding end_summary_def prod.inject by blast

end
